theory Spec2Isabelle
  imports Complex_Main "HOL-Library.Sublist"
begin

section \<open>Space Invaders: the game-loop simulation of \<^verbatim>\<open>Space_invaders.py\<close>\<close>

text \<open>
  The simulation core of the game is embedded as pure functions over records. Python's
  unbounded integers are \<^typ>\<open>int\<close>, \<^verbatim>\<open>//\<close> is \<open>div\<close>. Every method that mutates
  \<^verbatim>\<open>self\<close> takes the object and returns the updated one. Window creation, drawing,
  fonts and the frame clock do not change the simulated state and are left out; the
  state that \<^verbatim>\<open>draw\<close> renders is the state at the end of a tick.
\<close>

subsection \<open>Constants\<close>

definition SCREEN_WIDTH :: int where "SCREEN_WIDTH = 800"
definition SCREEN_HEIGHT :: int where "SCREEN_HEIGHT = 600"
definition PLAYER_SPEED :: int where "PLAYER_SPEED = 5"
definition BULLET_SPEED :: int where "BULLET_SPEED = 7"
definition ALIEN_SPEED :: int where "ALIEN_SPEED = 1"
definition ALIEN_DROP_SPEED :: int where "ALIEN_DROP_SPEED = 20"

subsection \<open>Rectangles\<close>

text \<open>
  \<^verbatim>\<open>pygame.Rect(x, y, width, height)\<close> and its method \<^verbatim>\<open>colliderect\<close> belong to the
  pygame library. Two rectangles collide when their interiors overlap; a rectangle of
  zero width or height collides with nothing; a negative size is normalised by taking the
  smaller and the larger of the two edges.
\<close>

record rect =
  r_x :: int
  r_y :: int
  r_w :: int
  r_h :: int

definition Rect :: "int \<Rightarrow> int \<Rightarrow> int \<Rightarrow> int \<Rightarrow> rect" where
  "Rect x y w h = \<lparr>r_x = x, r_y = y, r_w = w, r_h = h\<rparr>"

definition colliderect :: "rect \<Rightarrow> rect \<Rightarrow> bool" where
  "colliderect A B =
     (if r_w A = 0 \<or> r_h A = 0 \<or> r_w B = 0 \<or> r_h B = 0 then False
      else min (r_x A) (r_x A + r_w A) < max (r_x B) (r_x B + r_w B)
         \<and> min (r_y A) (r_y A + r_h A) < max (r_y B) (r_y B + r_h B)
         \<and> max (r_x A) (r_x A + r_w A) > min (r_x B) (r_x B + r_w B)
         \<and> max (r_y A) (r_y A + r_h A) > min (r_y B) (r_y B + r_h B))"

subsection \<open>Player\<close>

record player =
  p_x :: int
  p_y :: int
  p_width :: int
  p_height :: int
  p_speed :: int

definition Player :: "int \<Rightarrow> int \<Rightarrow> player" where
  "Player x y = \<lparr>p_x = x, p_y = y, p_width = 50, p_height = 40, p_speed = PLAYER_SPEED\<rparr>"

definition move_left :: "player \<Rightarrow> player" where
  "move_left p = (if p_x p > 0 then p\<lparr>p_x := p_x p - p_speed p\<rparr> else p)"

definition move_right :: "player \<Rightarrow> player" where
  "move_right p =
     (if p_x p < SCREEN_WIDTH - p_width p then p\<lparr>p_x := p_x p + p_speed p\<rparr> else p)"

definition player_get_rect :: "player \<Rightarrow> rect" where
  "player_get_rect p = Rect (p_x p) (p_y p) (p_width p) (p_height p)"

subsection \<open>Bullet\<close>

record bullet =
  b_x :: int
  b_y :: int
  b_width :: int
  b_height :: int
  b_speed :: int

definition Bullet :: "int \<Rightarrow> int \<Rightarrow> bullet" where
  "Bullet x y = \<lparr>b_x = x, b_y = y, b_width = 5, b_height = 10, b_speed = BULLET_SPEED\<rparr>"

definition bullet_move :: "bullet \<Rightarrow> bullet" where
  "bullet_move b = b\<lparr>b_y := b_y b - b_speed b\<rparr>"

definition is_off_screen :: "bullet \<Rightarrow> bool" where
  "is_off_screen b = (b_y b < 0)"

definition bullet_get_rect :: "bullet \<Rightarrow> rect" where
  "bullet_get_rect b = Rect (b_x b) (b_y b) (b_width b) (b_height b)"

subsection \<open>Alien\<close>

record alien =
  a_x :: int
  a_y :: int
  a_width :: int
  a_height :: int
  a_speed :: int
  a_direction :: int

definition Alien :: "int \<Rightarrow> int \<Rightarrow> alien" where
  "Alien x y = \<lparr>a_x = x, a_y = y, a_width = 40, a_height = 30, a_speed = ALIEN_SPEED,
                 a_direction = 1\<rparr>"

definition alien_move :: "alien \<Rightarrow> alien" where
  "alien_move a = a\<lparr>a_x := a_x a + a_speed a * a_direction a\<rparr>"

definition drop_down :: "alien \<Rightarrow> alien" where
  "drop_down a = a\<lparr>a_y := a_y a + ALIEN_DROP_SPEED, a_direction := a_direction a * (- 1)\<rparr>"

definition alien_get_rect :: "alien \<Rightarrow> rect" where
  "alien_get_rect a = Rect (a_x a) (a_y a) (a_width a) (a_height a)"

subsection \<open>Game\<close>

record game =
  player :: player
  bullets :: "bullet list"
  aliens :: "alien list"
  score :: int
  lives :: int
  game_over :: bool

text \<open>\<^verbatim>\<open>range(n)\<close> for the two counting loops of the formation.\<close>

definition py_range :: "int \<Rightarrow> int list" where
  "py_range n = [0..n - 1]"

definition formation :: "alien list" where
  "formation =
     concat (map (\<lambda>row. map (\<lambda>col. Alien (col * 60 + 50) (row * 50 + 50)) (py_range 10))
                 (py_range 5))"

definition create_alien_formation :: "game \<Rightarrow> game" where
  "create_alien_formation g = g\<lparr>aliens := formation\<rparr>"

text \<open>\<^verbatim>\<open>Game.__init__\<close>: the fields are set, then the formation is created.\<close>

definition Game :: game where
  "Game = create_alien_formation
     \<lparr>player = Player (SCREEN_WIDTH div 2 - 25) (SCREEN_HEIGHT - 80),
      bullets = [], aliens = [], score = 0, lives = 3, game_over = False\<rparr>"

definition restart_game :: "game \<Rightarrow> game" where
  "restart_game g = create_alien_formation
     (g\<lparr>player := Player (SCREEN_WIDTH div 2 - 25) (SCREEN_HEIGHT - 80),
        bullets := [], score := 0, lives := 3, game_over := False\<rparr>)"

subsection \<open>Input\<close>

text \<open>
  The input of one tick is what pygame hands to the loop: the drained event queue and the
  snapshot of held keys. Only the keys the game reads are told apart.
\<close>

datatype key = K_SPACE | K_r | K_LEFT | K_RIGHT | K_a | K_d | K_other

datatype event = QUIT | KEYDOWN key | OTHER_EVENT

text \<open>
  The body of the event loop for one event: \<open>None\<close> is the early \<^verbatim>\<open>return False\<close>
  on \<^verbatim>\<open>QUIT\<close>.
\<close>

definition handle_event :: "game \<Rightarrow> event \<Rightarrow> game option" where
  "handle_event g e =
     (case e of
        QUIT \<Rightarrow> None
      | KEYDOWN k \<Rightarrow>
          if k = K_SPACE \<and> \<not> game_over g then
            (let bullet_x = p_x (player g) + p_width (player g) div 2 - 2;
                 bullet_y = p_y (player g)
             in Some (g\<lparr>bullets := bullets g @ [Bullet bullet_x bullet_y]\<rparr>))
          else if k = K_r \<and> game_over g then Some (restart_game g)
          else Some g
      | OTHER_EVENT \<Rightarrow> Some g)"

fun handle_events :: "game \<Rightarrow> event list \<Rightarrow> bool \<times> game" where
  "handle_events g [] = (True, g)"
| "handle_events g (e # es) =
     (case handle_event g e of None \<Rightarrow> (False, g) | Some g' \<Rightarrow> handle_events g' es)"

definition handle_input :: "game \<Rightarrow> (key \<Rightarrow> bool) \<Rightarrow> game" where
  "handle_input g keys =
     (if \<not> game_over g then
        (let g1 = (if keys K_LEFT \<or> keys K_a then g\<lparr>player := move_left (player g)\<rparr> else g)
         in if keys K_RIGHT \<or> keys K_d then g1\<lparr>player := move_right (player g1)\<rparr> else g1)
      else g)"

subsection \<open>Updates\<close>

definition update_bullets :: "game \<Rightarrow> game" where
  "update_bullets g =
     g\<lparr>bullets := map bullet_move (filter (\<lambda>b. \<not> is_off_screen b) (bullets g))\<rparr>"

text \<open>
  The first loop of \<^verbatim>\<open>update_aliens\<close> moves each alien and raises the flag
  \<^verbatim>\<open>hit_edge\<close> when the moved alien is at or beyond an edge.
\<close>

fun move_aliens :: "alien list \<Rightarrow> bool \<Rightarrow> alien list \<times> bool" where
  "move_aliens [] hit_edge = ([], hit_edge)"
| "move_aliens (a # as) hit_edge =
     (let a' = alien_move a;
          hit_edge' = (if a_x a' \<le> 0 \<or> a_x a' \<ge> SCREEN_WIDTH - a_width a' then True
                       else hit_edge);
          (as', h) = move_aliens as hit_edge'
      in (a' # as', h))"

definition update_aliens :: "game \<Rightarrow> game" where
  "update_aliens g =
     (let g1 = (if aliens g = [] then create_alien_formation g else g);
          (moved, hit_edge) = move_aliens (aliens g1) False
      in if hit_edge then g1\<lparr>aliens := map drop_down moved\<rparr> else g1\<lparr>aliens := moved\<rparr>)"

text \<open>
  \<^verbatim>\<open>check_collisions\<close>. The inner loop walks the aliens in order and, at the first one
  whose rectangle collides with the bullet's, removes that alien and breaks:
  \<open>hit_alien\<close> returns the aliens that remain, or \<open>None\<close> when the loop ends without a
  hit. The outer loop walks a copy of the bullets; the elements of both lists are distinct
  objects, so \<^verbatim>\<open>list.remove\<close> takes out exactly the element the loop is at.
\<close>

fun hit_alien :: "bullet \<Rightarrow> alien list \<Rightarrow> alien list option" where
  "hit_alien b [] = None"
| "hit_alien b (a # as) =
     (if colliderect (bullet_get_rect b) (alien_get_rect a) then Some as
      else map_option ((#) a) (hit_alien b as))"

fun collide_bullets :: "bullet list \<Rightarrow> alien list \<Rightarrow> int \<Rightarrow> bullet list \<times> alien list \<times> int" where
  "collide_bullets [] as sc = ([], as, sc)"
| "collide_bullets (b # bs) as sc =
     (case hit_alien b as of
        Some as' \<Rightarrow> collide_bullets bs as' (sc + 10)
      | None \<Rightarrow> (let (bs', as', sc') = collide_bullets bs as sc in (b # bs', as', sc')))"

definition check_collisions :: "game \<Rightarrow> game" where
  "check_collisions g =
     (let (bs, as, sc) = collide_bullets (bullets g) (aliens g) (score g)
      in g\<lparr>bullets := bs, aliens := as, score := sc\<rparr>)"

text \<open>
  \<^verbatim>\<open>check_alien_collision_with_player\<close>: the loop stops at the first alien that
  touches the player or has reached the floor line.
\<close>

definition breach :: "player \<Rightarrow> alien \<Rightarrow> bool" where
  "breach p a \<longleftrightarrow>
     colliderect (alien_get_rect a) (player_get_rect p) \<or> a_y a \<ge> SCREEN_HEIGHT - 100"

fun alien_player_loop :: "game \<Rightarrow> alien list \<Rightarrow> game" where
  "alien_player_loop g [] = g"
| "alien_player_loop g (a # as) =
     (if breach (player g) a then
        (let g1 = g\<lparr>lives := lives g - 1\<rparr>
         in if lives g1 \<le> 0 then g1\<lparr>game_over := True\<rparr> else create_alien_formation g1)
      else alien_player_loop g as)"

definition check_alien_collision_with_player :: "game \<Rightarrow> game" where
  "check_alien_collision_with_player g = alien_player_loop g (aliens g)"

subsection \<open>The main loop\<close>

text \<open>
  One iteration of the loop of \<^verbatim>\<open>run\<close>: the events, then the updates unless the game
  is over. The result carries \<^verbatim>\<open>running\<close> and the state that is drawn.
\<close>

definition tick :: "game \<Rightarrow> event list \<times> (key \<Rightarrow> bool) \<Rightarrow> bool \<times> game" where
  "tick g inp =
     (let (running, g1) = handle_events g (fst inp)
      in if \<not> game_over g1 then
           (running,
            check_alien_collision_with_player
              (check_collisions (update_aliens (update_bullets (handle_input g1 (snd inp))))))
         else (running, g1))"

text \<open>
  The loop over the inputs of successive ticks; it ends after the tick whose events held a
  \<^verbatim>\<open>QUIT\<close>. The result is the state drawn last.
\<close>

fun run :: "game \<Rightarrow> (event list \<times> (key \<Rightarrow> bool)) list \<Rightarrow> game" where
  "run g [] = g"
| "run g (inp # inps) =
     (case tick g inp of (running, g') \<Rightarrow> if running then run g' inps else g')"

subsection \<open>Predicates of the properties\<close>

text \<open>
  What holds of the player in every state of a game started by \<^verbatim>\<open>Game()\<close>: the size
  and speed of the constructor, and a position that is a multiple of the speed inside the
  playfield.
\<close>

definition player_ok :: "game \<Rightarrow> bool" where
  "player_ok g \<longleftrightarrow> p_width (player g) = 50 \<and> p_speed (player g) = 5 \<and>
     p_x (player g) mod 5 = 0 \<and> 0 \<le> p_x (player g) \<and> p_x (player g) \<le> 750"

text \<open>
  An edge hit, as \<^verbatim>\<open>update_aliens\<close> tests it on the aliens it has just moved: some alien
  is at or beyond the left edge, or at or beyond \<open>SCREEN_WIDTH - width\<close>.
\<close>

definition edge_hit :: "alien list \<Rightarrow> bool" where
  "edge_hit as \<longleftrightarrow> (\<exists>a\<in>set as. a_x a \<le> 0 \<or> a_x a \<ge> SCREEN_WIDTH - a_width a)"

text \<open>All aliens of the state move in one direction, right (1) or left (-1).\<close>

definition direction_ok :: "game \<Rightarrow> bool" where
  "direction_ok g \<longleftrightarrow> (\<exists>d\<in>{1, - 1}. \<forall>a\<in>set (aliens g). a_direction a = d)"

text \<open>The aliens whose rectangle collides with the rectangle of bullet \<open>b\<close>, in list order.\<close>

definition overlapping :: "bullet \<Rightarrow> alien list \<Rightarrow> alien list" where
  "overlapping b as = filter (\<lambda>a. colliderect (bullet_get_rect b) (alien_get_rect a)) as"

text \<open>
  The aliens that are left when the first alien under bullet \<open>b\<close> is taken out of the
  list: the ones before it, which \<open>b\<close> does not lie over, and all the ones after it.
\<close>

definition first_removed :: "bullet \<Rightarrow> alien list \<Rightarrow> alien list" where
  "first_removed b as =
     takeWhile (\<lambda>a. \<not> colliderect (bullet_get_rect b) (alien_get_rect a)) as @
     tl (dropWhile (\<lambda>a. \<not> colliderect (bullet_get_rect b) (alien_get_rect a)) as)"

subsection \<open>States and inputs of whole runs\<close>

text \<open>
  The formation as a whole, \<open>dx\<close> to the right of the left edge and \<open>y\<close> below the top,
  moving in direction \<open>d\<close>; \<^verbatim>\<open>create_alien_formation\<close> builds \<open>grid 50 50 1\<close>. A state
  \<open>play px bs dx y d\<close> is the initial state but for the player's \<open>x\<close>, the bullets and the
  place and direction of the complete formation.
\<close>

definition grid :: "int \<Rightarrow> int \<Rightarrow> int \<Rightarrow> alien list" where
  "grid dx y d =
     concat (map (\<lambda>row. map (\<lambda>col. (Alien (col * 60 + dx) (row * 50 + y))\<lparr>a_direction := d\<rparr>)
                   (py_range 10)) (py_range 5))"

definition play :: "int \<Rightarrow> bullet list \<Rightarrow> int \<Rightarrow> int \<Rightarrow> int \<Rightarrow> game" where
  "play px bs dx y d = Game\<lparr>player := Player px 520, bullets := bs, aliens := grid dx y d\<rparr>"

text \<open>
  The input of a tick with no event and no key held, of a tick with the left arrow held,
  and of a tick with one fire command.
\<close>

definition idle :: "event list \<times> (key \<Rightarrow> bool)" where
  "idle = ([], \<lambda>k. False)"

definition hold_left :: "event list \<times> (key \<Rightarrow> bool)" where
  "hold_left = ([], \<lambda>k. k = K_LEFT)"

definition fire :: "event list \<times> (key \<Rightarrow> bool)" where
  "fire = ([KEYDOWN K_SPACE], \<lambda>k. False)"

subsection \<open>Concrete states used as instances\<close>

text \<open>A running game with one bullet in flight and a single alien on the floor line.\<close>

definition breached_game :: game where
  "breached_game = Game\<lparr>bullets := [Bullet 398 100], aliens := [Alien 300 500]\<rparr>"

text \<open>A running game on its last life, with two aliens on the floor line.\<close>

definition last_life_game :: game where
  "last_life_game = Game\<lparr>lives := 1, aliens := [Alien 300 500, Alien 360 500]\<rparr>"

text \<open>A running game whose first alien is one step from the right edge.\<close>

definition edge_game :: game where
  "edge_game = Game\<lparr>aliens := [Alien 759 50, Alien 100 100]\<rparr>"

text \<open>A running game in which the second of three bullets lies over two aliens and the
  first bullet lies over a third alien.\<close>

definition shot_game :: game where
  "shot_game = Game\<lparr>bullets := [Bullet 310 60, Bullet 100 100, Bullet 600 300],
                     aliens := [Alien 300 50, Alien 80 95, Alien 90 90], score := 40\<rparr>"

text \<open>A running game with three bullets at one place, as three fire commands of one tick
  leave them, over two aliens.\<close>

definition crowded_game :: game where
  "crowded_game = Game\<lparr>bullets := [Bullet 100 100, Bullet 100 100, Bullet 100 100],
                        aliens := [Alien 80 95, Alien 90 90], score := 40\<rparr>"

text \<open>
  The state of a game in which nothing was done for 2809 ticks: the formation has dropped
  twelve times and is one step from the right edge.
\<close>

definition descended_game :: game where
  "descended_game = play 375 [] 219 290 1"

text \<open>A running game whose aliens have all been shot, with one bullet still in flight.\<close>

definition cleared_game :: game where
  "cleared_game = Game\<lparr>bullets := [Bullet 398 300], aliens := [], score := 500\<rparr>"

text \<open>The state after one fire command in the initial state.\<close>

definition fired_game :: game where
  "fired_game = Game\<lparr>bullets := [Bullet 398 520]\<rparr>"

section \<open>Properties\<close>

subsection \<open>The initial state\<close>

lemma length_formation: "length formation = 50"
  by (simp add: formation_def py_range_def upto.simps)

lemma Game_fields:
  "player Game = Player 375 520" "bullets Game = []" "aliens Game = formation"
  "score Game = 0" "lives Game = 3" "game_over Game = False"
  by (simp_all add: Game_def create_alien_formation_def SCREEN_WIDTH_def SCREEN_HEIGHT_def)

lemma restart_game_eq: "restart_game g = Game"
  by (simp add: restart_game_def Game_def create_alien_formation_def)

subsection \<open>Restart\<close>

text \<open>
  Claim C8. A restart command (the key \<^verbatim>\<open>r\<close>) that arrives while the game is being
  played leaves the whole state as it is. While the game is over it resets the score to 0
  and the lives to 3, empties the bullets, rebuilds the formation of 50 aliens, puts a new
  player at the initial position and clears the game-over flag: the state is the initial
  one again.
\<close>

theorem restart_command:
  "(\<not> game_over g \<longrightarrow> handle_event g (KEYDOWN K_r) = Some g) \<and>
   (game_over g \<longrightarrow>
      (\<exists>g'. handle_event g (KEYDOWN K_r) = Some g' \<and> score g' = 0 \<and> lives g' = 3 \<and>
            bullets g' = [] \<and> aliens g' = formation \<and> length (aliens g') = 50 \<and>
            player g' = Player (SCREEN_WIDTH div 2 - 25) (SCREEN_HEIGHT - 80) \<and>
            \<not> game_over g' \<and> g' = Game))"
  by (simp add: handle_event_def restart_game_eq Game_fields length_formation
      SCREEN_WIDTH_def SCREEN_HEIGHT_def)

theorem restart_command_witness:
  "\<not> game_over Game \<and> handle_event Game (KEYDOWN K_r) = Some Game \<and>
   game_over (Game\<lparr>score := 120, lives := 0, game_over := True\<rparr>) \<and>
   handle_event (Game\<lparr>score := 120, lives := 0, game_over := True\<rparr>) (KEYDOWN K_r) = Some Game"
  using restart_command [of Game]
    restart_command [of "Game\<lparr>score := 120, lives := 0, game_over := True\<rparr>"]
  by (simp add: Game_fields)

subsection \<open>Aliens reaching the player\<close>

lemma alien_player_loop_eq:
  "alien_player_loop g as =
     (if \<exists>a\<in>set as. breach (player g) a then
        (if lives g - 1 \<le> 0 then g\<lparr>lives := lives g - 1, game_over := True\<rparr>
         else g\<lparr>lives := lives g - 1, aliens := formation\<rparr>)
      else g)"
  by (induction as) (auto simp: Let_def create_alien_formation_def)

text \<open>
  Claim C9. When an alien touches the player or has reached the floor line and more than
  one life is left, \<^verbatim>\<open>check_alien_collision_with_player\<close> takes one life and rebuilds
  the formation; nothing else changes, in particular neither the player nor the bullets.
\<close>

theorem life_lost_frame:
  assumes "\<exists>a\<in>set (aliens g). breach (player g) a" and "1 < lives g"
  shows "check_alien_collision_with_player g = g\<lparr>lives := lives g - 1, aliens := formation\<rparr>
    \<and> player (check_alien_collision_with_player g) = player g
    \<and> bullets (check_alien_collision_with_player g) = bullets g"
  using assms by (simp add: check_alien_collision_with_player_def alien_player_loop_eq)

theorem life_lost_frame_witness:
  "(\<exists>a\<in>set (aliens breached_game). breach (player breached_game) a) \<and> 1 < lives breached_game \<and>
   check_alien_collision_with_player breached_game =
     breached_game\<lparr>lives := 2, aliens := formation\<rparr> \<and>
   player (check_alien_collision_with_player breached_game) = Player 375 520 \<and>
   bullets (check_alien_collision_with_player breached_game) = [Bullet 398 100]"
proof -
  have h1: "\<exists>a\<in>set (aliens breached_game). breach (player breached_game) a"
    by (simp add: breached_game_def breach_def Alien_def SCREEN_HEIGHT_def)
  have h2: "1 < lives breached_game"
    by (simp add: breached_game_def Game_fields)
  show ?thesis
    using life_lost_frame [OF h1 h2] h1 h2 by (simp add: breached_game_def Game_fields)
qed

subsection \<open>Firing\<close>

lemma handle_events_fire:
  "\<not> game_over g \<Longrightarrow> handle_events g (replicate n (KEYDOWN K_SPACE)) =
   (True, g\<lparr>bullets := bullets g @
      replicate n (Bullet (p_x (player g) + p_width (player g) div 2 - 2) (p_y (player g)))\<rparr>)"
proof (induction n arbitrary: g)
  case 0
  then show ?case by simp
next
  case (Suc n)
  then show ?case
    by (simp add: handle_event_def Let_def replicate_app_Cons_same)
qed

text \<open>
  Claim C10. While the game is not over, a fire command (the key \<^verbatim>\<open>SPACE\<close>) appends
  exactly one bullet, at \<open>x = player.x + player.width div 2 - 2\<close> and the player's \<open>y\<close>.
  Any number \<open>n\<close> of fire commands in the events of one tick appends \<open>n\<close> bullets, so
  the number of bullets in flight has no bound.
\<close>

theorem fire_command:
  assumes "\<not> game_over g"
  shows "handle_event g (KEYDOWN K_SPACE) =
      Some (g\<lparr>bullets := bullets g @
        [Bullet (p_x (player g) + p_width (player g) div 2 - 2) (p_y (player g))]\<rparr>)
    \<and> handle_events g (replicate n (KEYDOWN K_SPACE)) =
      (True, g\<lparr>bullets := bullets g @
        replicate n (Bullet (p_x (player g) + p_width (player g) div 2 - 2) (p_y (player g)))\<rparr>)
    \<and> length (bullets (snd (handle_events g (replicate n (KEYDOWN K_SPACE))))) =
      length (bullets g) + n"
  using assms by (simp add: handle_events_fire) (simp add: handle_event_def)

theorem fire_command_witness:
  "\<not> game_over Game \<and>
   handle_event Game (KEYDOWN K_SPACE) = Some (Game\<lparr>bullets := [Bullet 398 520]\<rparr>) \<and>
   handle_events Game (replicate 3 (KEYDOWN K_SPACE)) =
     (True, Game\<lparr>bullets := replicate 3 (Bullet 398 520)\<rparr>) \<and>
   length (bullets (snd (handle_events Game (replicate 3 (KEYDOWN K_SPACE))))) = 3"
proof -
  have h: "\<not> game_over Game" by (simp add: Game_fields)
  show ?thesis
    using fire_command [OF h, of 3] h
    by (simp add: Game_fields Player_def PLAYER_SPEED_def)
qed

subsection \<open>Moving the player\<close>

text \<open>
  Claim C2. \<^verbatim>\<open>move_left\<close> tests the position before the move (\<open>x > 0\<close>), not the
  position the move leads to: from \<open>x = 3\<close> the player goes to \<open>x = -2\<close>. In the same
  way \<^verbatim>\<open>move_right\<close> goes from \<open>x = 748\<close> to \<open>x = 753\<close>, beyond
  \<open>SCREEN_WIDTH - width = 750\<close>.
\<close>

theorem move_left_leaves_playfield:
  "p_x (move_left (Player 3 520)) = - 2 \<and> p_x (move_right (Player 748 520)) = 753"
  by (simp add: move_left_def move_right_def Player_def PLAYER_SPEED_def SCREEN_WIDTH_def)

subsection \<open>Lives and the end of the game\<close>

lemma handle_event_playing:
  assumes "\<not> game_over g" and "handle_event g e = Some g'"
  shows "\<exists>bs. g' = g\<lparr>bullets := bullets g @ bs\<rparr>"
proof (cases "e = KEYDOWN K_SPACE")
  case True
  with assms show ?thesis by (auto simp: handle_event_def Let_def)
next
  case False
  with assms have "g' = g"
    by (cases e) (auto simp: handle_event_def split: if_splits)
  then have "g' = g\<lparr>bullets := bullets g @ []\<rparr>" by simp
  then show ?thesis by blast
qed

lemma handle_events_playing:
  "\<not> game_over g \<Longrightarrow> \<exists>bs. snd (handle_events g evs) = g\<lparr>bullets := bullets g @ bs\<rparr>"
proof (induction evs arbitrary: g)
  case Nil
  have "snd (handle_events g []) = g\<lparr>bullets := bullets g @ []\<rparr>" by simp
  then show ?case by blast
next
  case (Cons e evs)
  show ?case
  proof (cases "handle_event g e")
    case None
    then have "snd (handle_events g (e # evs)) = g\<lparr>bullets := bullets g @ []\<rparr>" by simp
    then show ?thesis by blast
  next
    case (Some g')
    from handle_event_playing [OF Cons.prems Some]
    obtain b where g': "g' = g\<lparr>bullets := bullets g @ b\<rparr>" by blast
    then have ng: "\<not> game_over g'" using Cons.prems by simp
    from Cons.IH [OF ng] obtain bs
      where "snd (handle_events g' evs) = g'\<lparr>bullets := bullets g' @ bs\<rparr>" by blast
    then have "snd (handle_events g (e # evs)) = g\<lparr>bullets := bullets g @ (b @ bs)\<rparr>"
      using Some g' by simp
    then show ?thesis by blast
  qed
qed

lemma handle_events_over:
  "game_over g \<Longrightarrow> KEYDOWN K_r \<notin> set evs \<Longrightarrow> snd (handle_events g evs) = g"
proof (induction evs)
  case Nil
  then show ?case by simp
next
  case (Cons e evs)
  then have "handle_event g e = None \<or> handle_event g e = Some g"
    by (cases e) (auto simp: handle_event_def)
  with Cons show ?case by auto
qed

lemma lives_frame:
  "lives (handle_input g keys) = lives g"
  "lives (update_bullets g) = lives g"
  "lives (update_aliens g) = lives g"
  "lives (check_collisions g) = lives g"
  by (simp_all add: handle_input_def update_bullets_def update_aliens_def check_collisions_def
      create_alien_formation_def Let_def split: prod.splits)

lemma check_alien_lives:
  "lives g - 1 \<le> lives (check_alien_collision_with_player g) \<and>
   lives (check_alien_collision_with_player g) \<le> lives g"
  by (simp add: check_alien_collision_with_player_def alien_player_loop_eq)

lemma tick_lives:
  assumes ng: "\<not> game_over g"
  shows "lives g - 1 \<le> lives (snd (tick g inp)) \<and> lives (snd (tick g inp)) \<le> lives g"
proof -
  obtain bs where h: "snd (handle_events g (fst inp)) = g\<lparr>bullets := bullets g @ bs\<rparr>"
    using handle_events_playing [OF ng] by blast
  obtain r g1 where rg: "handle_events g (fst inp) = (r, g1)"
    by (cases "handle_events g (fst inp)")
  with h have g1: "g1 = g\<lparr>bullets := bullets g @ bs\<rparr>" by simp
  have "lives g1 = lives g" "\<not> game_over g1" using g1 ng by simp_all
  then show ?thesis
    using check_alien_lives
      [of "check_collisions (update_aliens (update_bullets (handle_input g1 (snd inp))))"]
    by (simp add: tick_def rg lives_frame)
qed

lemma tick_game_over:
  assumes "game_over g" and "KEYDOWN K_r \<notin> set (fst inp)"
  shows "snd (tick g inp) = g"
proof -
  obtain r g1 where rg: "handle_events g (fst inp) = (r, g1)"
    by (cases "handle_events g (fst inp)")
  with handle_events_over [OF assms] have "g1 = g" by simp
  then show ?thesis using assms by (simp add: tick_def rg)
qed

text \<open>
  Claim C7. With one life left, an alien that touches the player or has reached the floor
  line (\<open>y \<ge> SCREEN_HEIGHT - 100\<close>) makes \<^verbatim>\<open>check_alien_collision_with_player\<close>
  set the lives to 0 and the game-over flag. The step never takes more than one life,
  however many aliens are in breach, and neither does a whole tick of a running game.
  While the game is over, a tick whose events hold no restart command leaves the state as
  it is: no movement, no bullet or alien update, no collision.
\<close>

theorem last_life_breach:
  "(lives g = 1 \<and> (\<exists>a\<in>set (aliens g). breach (player g) a) \<longrightarrow>
      check_alien_collision_with_player g = g\<lparr>lives := 0, game_over := True\<rparr>) \<and>
   lives g - 1 \<le> lives (check_alien_collision_with_player g) \<and>
   lives (check_alien_collision_with_player g) \<le> lives g \<and>
   (\<not> game_over g \<longrightarrow>
      lives g - 1 \<le> lives (snd (tick g inp)) \<and> lives (snd (tick g inp)) \<le> lives g) \<and>
   (game_over g \<and> KEYDOWN K_r \<notin> set (fst inp) \<longrightarrow> snd (tick g inp) = g)"
proof -
  have a: "lives g = 1 \<and> (\<exists>a\<in>set (aliens g). breach (player g) a) \<longrightarrow>
      check_alien_collision_with_player g = g\<lparr>lives := 0, game_over := True\<rparr>"
    by (simp add: check_alien_collision_with_player_def alien_player_loop_eq)
  show ?thesis using a check_alien_lives tick_lives tick_game_over by blast
qed

theorem last_life_breach_witness:
  "lives last_life_game = 1 \<and> (\<exists>a\<in>set (aliens last_life_game). breach (player last_life_game) a) \<and>
   check_alien_collision_with_player last_life_game = last_life_game\<lparr>lives := 0, game_over := True\<rparr> \<and>
   \<not> game_over last_life_game \<and> 0 \<le> lives (snd (tick last_life_game ([], \<lambda>k. False))) \<and>
   game_over (last_life_game\<lparr>lives := 0, game_over := True\<rparr>) \<and>
   KEYDOWN K_r \<notin> set (fst ([KEYDOWN K_SPACE, OTHER_EVENT], \<lambda>k. k = K_LEFT)) \<and>
   snd (tick (last_life_game\<lparr>lives := 0, game_over := True\<rparr>)
         ([KEYDOWN K_SPACE, OTHER_EVENT], \<lambda>k. k = K_LEFT)) =
     last_life_game\<lparr>lives := 0, game_over := True\<rparr>"
proof -
  have h1: "lives last_life_game = 1 \<and> (\<exists>a\<in>set (aliens last_life_game). breach (player last_life_game) a)"
    by (simp add: last_life_game_def breach_def Alien_def SCREEN_HEIGHT_def)
  have h2: "\<not> game_over last_life_game" by (simp add: last_life_game_def Game_fields)
  have h3: "game_over (last_life_game\<lparr>lives := 0, game_over := True\<rparr>) \<and>
     KEYDOWN K_r \<notin> set (fst ([KEYDOWN K_SPACE, OTHER_EVENT], \<lambda>k. k = K_LEFT))" by simp
  show ?thesis
    using last_life_breach [of last_life_game "([], \<lambda>k. False)"]
      last_life_breach [of "last_life_game\<lparr>lives := 0, game_over := True\<rparr>"
         "([KEYDOWN K_SPACE, OTHER_EVENT], \<lambda>k. k = K_LEFT)"] h1 h2 h3
    by simp
qed

subsection \<open>The player stays in the playfield\<close>

lemma player_frame:
  "player (update_bullets g) = player g"
  "player (update_aliens g) = player g"
  "player (check_collisions g) = player g"
  "player (check_alien_collision_with_player g) = player g"
  by (simp_all add: update_bullets_def update_aliens_def check_collisions_def
      check_alien_collision_with_player_def alien_player_loop_eq
      create_alien_formation_def Let_def split: prod.splits)

lemma player_ok_Game: "player_ok Game"
  by (simp add: player_ok_def Game_fields Player_def PLAYER_SPEED_def)

lemma player_ok_handle_event:
  "player_ok g \<Longrightarrow> handle_event g e = Some g' \<Longrightarrow> player_ok g'"
  using player_ok_Game
  by (cases e) (auto simp: handle_event_def Let_def restart_game_eq player_ok_def split: if_splits)

lemma player_ok_handle_events: "player_ok g \<Longrightarrow> player_ok (snd (handle_events g evs))"
proof (induction evs arbitrary: g)
  case Nil
  then show ?case by simp
next
  case (Cons e evs)
  then show ?case
    by (cases "handle_event g e") (auto dest: player_ok_handle_event)
qed

lemma player_ok_move_left:
  assumes "p_width p = 50 \<and> p_speed p = 5 \<and> p_x p mod 5 = 0 \<and> 0 \<le> p_x p \<and> p_x p \<le> 750"
  shows "p_width (move_left p) = 50 \<and> p_speed (move_left p) = 5 \<and> p_x (move_left p) mod 5 = 0
     \<and> 0 \<le> p_x (move_left p) \<and> p_x (move_left p) \<le> 750"
proof (cases "p_x p > 0")
  case True
  with assms have "5 \<le> p_x p" by presburger
  moreover from assms have "(p_x p - 5) mod 5 = 0" by presburger
  ultimately show ?thesis using assms True by (simp add: move_left_def)
next
  case False
  with assms show ?thesis by (simp add: move_left_def)
qed

lemma player_ok_move_right:
  assumes "p_width p = 50 \<and> p_speed p = 5 \<and> p_x p mod 5 = 0 \<and> 0 \<le> p_x p \<and> p_x p \<le> 750"
  shows "p_width (move_right p) = 50 \<and> p_speed (move_right p) = 5 \<and> p_x (move_right p) mod 5 = 0
     \<and> 0 \<le> p_x (move_right p) \<and> p_x (move_right p) \<le> 750"
proof (cases "p_x p < 750")
  case True
  with assms have "p_x p \<le> 745" by presburger
  moreover from assms have "(p_x p + 5) mod 5 = 0" by presburger
  ultimately show ?thesis using assms True by (simp add: move_right_def SCREEN_WIDTH_def)
next
  case False
  with assms show ?thesis by (simp add: move_right_def SCREEN_WIDTH_def)
qed

lemma player_ok_handle_input: "player_ok g \<Longrightarrow> player_ok (handle_input g keys)"
  using player_ok_move_left [of "player g"] player_ok_move_right [of "player g"]
    player_ok_move_right [of "move_left (player g)"]
  by (simp add: handle_input_def player_ok_def Let_def)

lemma player_ok_tick: "player_ok g \<Longrightarrow> player_ok (snd (tick g inp))"
proof -
  assume ok: "player_ok g"
  obtain r g1 where rg: "handle_events g (fst inp) = (r, g1)"
    by (cases "handle_events g (fst inp)")
  with player_ok_handle_events [OF ok, of "fst inp"] have "player_ok g1" by simp
  from player_ok_handle_input [OF this, of "snd inp"] this show ?thesis
    by (simp add: tick_def rg player_ok_def player_frame)
qed

lemma player_ok_run: "player_ok g \<Longrightarrow> player_ok (run g inps)"
proof (induction inps arbitrary: g)
  case Nil
  then show ?case by simp
next
  case (Cons inp inps)
  from player_ok_tick [OF Cons.prems, of inp] Cons.IH show ?case
    by (cases "tick g inp") auto
qed

text \<open>
  Claim C3. In a game started from the initial state (player at \<open>x = 800 div 2 - 25 = 375\<close>,
  speed 5), whatever the events and held keys of each tick are, the player's \<open>x\<close> is
  between 0 and \<open>SCREEN_WIDTH - width\<close> after every tick. The position stays a multiple
  of 5, so the guards of \<^verbatim>\<open>move_left\<close> and \<^verbatim>\<open>move_right\<close> stop it exactly at 0 and
  at 750.
\<close>

theorem player_stays_in_playfield:
  "0 \<le> p_x (player (run Game inps)) \<and>
   p_x (player (run Game inps)) \<le> SCREEN_WIDTH - p_width (player (run Game inps))"
  using player_ok_run [OF player_ok_Game, of inps] by (simp add: player_ok_def SCREEN_WIDTH_def)

theorem player_stays_in_playfield_witness:
  "0 \<le> p_x (player (run Game (replicate 200 ([], \<lambda>k. k = K_LEFT)))) \<and>
   p_x (player (run Game (replicate 200 ([], \<lambda>k. k = K_LEFT)))) \<le>
     SCREEN_WIDTH - p_width (player (run Game (replicate 200 ([], \<lambda>k. k = K_LEFT))))"
  using player_stays_in_playfield [of "replicate 200 ([], \<lambda>k. k = K_LEFT)"] by simp

subsection \<open>The formation moves as one\<close>

lemma move_aliens_eq:
  "move_aliens as h = (map alien_move as, h \<or> edge_hit (map alien_move as))"
  by (induction as arbitrary: h) (auto simp: edge_hit_def Let_def)

lemma update_aliens_eq:
  "update_aliens g =
     (let as0 = (if aliens g = [] then formation else aliens g)
      in g\<lparr>aliens := (if edge_hit (map alien_move as0) then map (drop_down \<circ> alien_move) as0
                       else map alien_move as0)\<rparr>)"
  by (simp add: update_aliens_def move_aliens_eq create_alien_formation_def Let_def)

lemma formation_direction: "a \<in> set formation \<Longrightarrow> a_direction a = 1"
  by (auto simp: formation_def Alien_def)

lemma direction_ok_formation: "direction_ok (g\<lparr>aliens := formation\<rparr>)"
  by (auto simp: direction_ok_def formation_direction)

lemma direction_ok_subset:
  "direction_ok g \<Longrightarrow> set (aliens g') \<subseteq> set (aliens g) \<Longrightarrow> direction_ok g'"
  unfolding direction_ok_def by (meson subsetD)

lemma hit_alien_subset: "hit_alien b as = Some as' \<Longrightarrow> set as' \<subseteq> set as"
  by (induction as arbitrary: as') (auto split: if_splits)

lemma collide_bullets_subset:
  "collide_bullets bs as sc = (bs', as', sc') \<Longrightarrow> set as' \<subseteq> set as"
proof (induction bs arbitrary: as sc bs' as' sc')
  case Nil
  then show ?case by simp
next
  case (Cons b bs)
  show ?case
  proof (cases "hit_alien b as")
    case None
    with Cons.prems obtain bs0 where "collide_bullets bs as sc = (bs0, as', sc')"
      by (auto split: prod.splits)
    from Cons.IH [OF this] show ?thesis .
  next
    case (Some as1)
    with Cons.prems have "collide_bullets bs as1 (sc + 10) = (bs', as', sc')" by simp
    from Cons.IH [OF this] hit_alien_subset [OF Some] show ?thesis by blast
  qed
qed

lemma direction_ok_check_collisions: "direction_ok g \<Longrightarrow> direction_ok (check_collisions g)"
proof -
  assume ok: "direction_ok g"
  obtain bs' as' sc' where c: "collide_bullets (bullets g) (aliens g) (score g) = (bs', as', sc')"
    by (cases "collide_bullets (bullets g) (aliens g) (score g)")
  then have "aliens (check_collisions g) = as'" by (simp add: check_collisions_def)
  with collide_bullets_subset [OF c] direction_ok_subset [OF ok] show ?thesis by simp
qed

lemma direction_ok_update_aliens: "direction_ok g \<Longrightarrow> direction_ok (update_aliens g)"
proof -
  assume ok: "direction_ok g"
  define as0 where "as0 = (if aliens g = [] then formation else aliens g)"
  have "\<exists>d\<in>{1, - 1}. \<forall>a\<in>set as0. a_direction a = d"
    using ok by (auto simp: as0_def direction_ok_def formation_direction)
  then obtain d where d: "d \<in> {1, - 1}" "\<forall>a\<in>set as0. a_direction a = d" by blast
  have m: "\<forall>a\<in>set (map alien_move as0). a_direction a = d"
    using d by (simp add: alien_move_def)
  have dd: "\<forall>a\<in>set (map (drop_down \<circ> alien_move) as0). a_direction a = - d"
    using d by (simp add: alien_move_def drop_down_def)
  have "- d \<in> {1, - 1}" using d by auto
  with m dd d show ?thesis
    unfolding direction_ok_def update_aliens_eq Let_def as0_def [symmetric]
    by (cases "edge_hit (map alien_move as0)") auto
qed

lemma direction_ok_check_alien:
  "direction_ok g \<Longrightarrow> direction_ok (check_alien_collision_with_player g)"
  using direction_ok_formation [of "g\<lparr>lives := lives g - 1\<rparr>"]
  by (auto simp: check_alien_collision_with_player_def alien_player_loop_eq direction_ok_def)

lemma direction_ok_Game: "direction_ok Game"
  by (auto simp: direction_ok_def Game_fields formation_direction)

lemma direction_ok_handle_events: "direction_ok g \<Longrightarrow> direction_ok (snd (handle_events g evs))"
proof (induction evs arbitrary: g)
  case Nil
  then show ?case by simp
next
  case (Cons e evs)
  have "handle_event g e = Some g' \<Longrightarrow> direction_ok g'" for g'
    using Cons.prems direction_ok_Game
    by (cases e) (auto simp: handle_event_def Let_def restart_game_eq direction_ok_def
        split: if_splits)
  with Cons show ?case by (cases "handle_event g e") auto
qed

lemma direction_ok_tick: "direction_ok g \<Longrightarrow> direction_ok (snd (tick g inp))"
proof -
  assume ok: "direction_ok g"
  obtain r g1 where rg: "handle_events g (fst inp) = (r, g1)"
    by (cases "handle_events g (fst inp)")
  with direction_ok_handle_events [OF ok, of "fst inp"] have g1: "direction_ok g1" by simp
  have "aliens (update_bullets (handle_input g1 (snd inp))) = aliens g1"
    by (simp add: update_bullets_def handle_input_def Let_def)
  with g1 have "direction_ok (update_bullets (handle_input g1 (snd inp)))"
    by (simp add: direction_ok_def)
  then have "direction_ok (check_alien_collision_with_player
      (check_collisions (update_aliens (update_bullets (handle_input g1 (snd inp))))))"
    by (intro direction_ok_check_alien direction_ok_check_collisions direction_ok_update_aliens)
  with g1 show ?thesis by (simp add: tick_def rg)
qed

lemma direction_ok_run: "direction_ok g \<Longrightarrow> direction_ok (run g inps)"
proof (induction inps arbitrary: g)
  case Nil
  then show ?case by simp
next
  case (Cons inp inps)
  from direction_ok_tick [OF Cons.prems, of inp] Cons.IH show ?case
    by (cases "tick g inp") auto
qed

text \<open>
  What \<^verbatim>\<open>check_collisions\<close> leaves of the aliens is a subsequence of what it found, and
  the aliens after \<^verbatim>\<open>update_aliens\<close> depend on the aliens before it only.
\<close>

lemma hit_alien_subseq: "hit_alien b as = Some as' \<Longrightarrow> subseq as' as"
  by (induction as arbitrary: as') (auto split: if_splits)

lemma collide_bullets_subseq:
  "collide_bullets bs as sc = (bs', as', sc') \<Longrightarrow> subseq as' as"
proof (induction bs arbitrary: as sc bs' as' sc')
  case Nil
  then show ?case by simp
next
  case (Cons b bs)
  show ?case
  proof (cases "hit_alien b as")
    case None
    with Cons.prems obtain bs0 where "collide_bullets bs as sc = (bs0, as', sc')"
      by (auto split: prod.splits)
    from Cons.IH [OF this] show ?thesis .
  next
    case (Some as1)
    with Cons.prems have "collide_bullets bs as1 (sc + 10) = (bs', as', sc')" by simp
    from Cons.IH [OF this] hit_alien_subseq [OF Some] show ?thesis
      by (rule subseq_order.trans)
  qed
qed

lemma check_collisions_subseq: "subseq (aliens (check_collisions g)) (aliens g)"
proof -
  obtain bs' as' sc' where c: "collide_bullets (bullets g) (aliens g) (score g) = (bs', as', sc')"
    by (cases "collide_bullets (bullets g) (aliens g) (score g)")
  from collide_bullets_subseq [OF c] c show ?thesis by (simp add: check_collisions_def)
qed

lemma update_aliens_cong:
  "aliens g' = aliens g \<Longrightarrow> aliens (update_aliens g') = aliens (update_aliens g)"
  by (simp add: update_aliens_eq Let_def)

text \<open>
  The aliens at the end of a tick of a running game: the new formation when the tick took
  a life and lives remain, and otherwise those of \<^verbatim>\<open>update_aliens\<close> that were not shot.
  Here \<open>g3\<close> is the state of the tick after \<^verbatim>\<open>update_aliens\<close>.
\<close>

lemma tick_aliens:
  assumes ng: "\<not> game_over g"
  shows "let g3 = update_aliens (update_bullets
               (handle_input (snd (handle_events g (fst inp))) (snd inp)))
         in aliens g3 = aliens (update_aliens g) \<and>
            (if lives (snd (tick g inp)) < lives g \<and> 0 < lives (snd (tick g inp))
             then aliens (snd (tick g inp)) = formation
             else aliens (snd (tick g inp)) = aliens (check_collisions g3) \<and>
                  subseq (aliens (snd (tick g inp))) (aliens (update_aliens g)))"
proof -
  obtain bs where h: "snd (handle_events g (fst inp)) = g\<lparr>bullets := bullets g @ bs\<rparr>"
    using handle_events_playing [OF ng] by blast
  obtain r g1 where rg: "handle_events g (fst inp) = (r, g1)"
    by (cases "handle_events g (fst inp)")
  with h have g1: "g1 = g\<lparr>bullets := bullets g @ bs\<rparr>" by simp
  define g2 where "g2 = update_bullets (handle_input g1 (snd inp))"
  define g3 where "g3 = update_aliens g2"
  define g4 where "g4 = check_collisions g3"
  have a2: "aliens g2 = aliens g" and l2: "lives g2 = lives g"
    by (simp_all add: g2_def g1 update_bullets_def handle_input_def Let_def)
  have a3: "aliens g3 = aliens (update_aliens g)"
    unfolding g3_def by (rule update_aliens_cong [OF a2])
  have s4: "subseq (aliens g4) (aliens (update_aliens g))"
    using check_collisions_subseq [of g3] a3 by (simp add: g4_def)
  have l4: "lives g4 = lives g" by (simp add: g4_def g3_def lives_frame l2)
  have t: "snd (tick g inp) = check_alien_collision_with_player g4"
    using ng by (simp add: tick_def rg g1 g4_def g3_def g2_def)
  have "if lives (snd (tick g inp)) < lives g \<and> 0 < lives (snd (tick g inp))
        then aliens (snd (tick g inp)) = formation
        else aliens (snd (tick g inp)) = aliens g4 \<and>
             subseq (aliens (snd (tick g inp))) (aliens (update_aliens g))"
    unfolding t using s4 l4
    by (auto simp: check_alien_collision_with_player_def alien_player_loop_eq)
  with a3 show ?thesis
    unfolding Let_def by (simp only: rg snd_conv g4_def g3_def g2_def)
qed

lemma tick_no_bullets:
  assumes "\<not> game_over g" and "bullets g = []"
  shows "tick g ([], \<lambda>k. False) = (True, check_alien_collision_with_player (update_aliens g))"
proof -
  have i: "handle_input g (\<lambda>k. False) = g" by (simp add: handle_input_def)
  have b: "update_bullets g = g" using assms(2) by (simp add: update_bullets_def)
  have "bullets (update_aliens g) = []"
    using assms(2) by (simp add: update_aliens_eq Let_def)
  then have c: "check_collisions (update_aliens g) = update_aliens g"
    by (simp add: check_collisions_def)
  show ?thesis using assms(1) by (simp add: tick_def i b c)
qed

text \<open>
  Claim C6, as the code has it. After every tick of a game started from the initial state
  all aliens have the same direction, 1 or -1. One call of \<^verbatim>\<open>update_aliens\<close> first moves
  every alien (of the new formation when there was none) and then, when some moved alien
  is at an edge, drops all of them: every \<open>y\<close> grows by 20 and every direction changes
  sign; when no moved alien is at an edge, the aliens are only moved. In a tick of a
  running game this call acts on the aliens the tick began with. At the end of the tick
  the aliens are what \<^verbatim>\<open>check_collisions\<close> has left of the result of the call, a
  subsequence of it, unless the tick has taken a life and lives remain: then they are the
  new formation, whatever the call did.
\<close>

theorem formation_synchrony:
  "(\<exists>d\<in>{1, - 1}. \<forall>a\<in>set (aliens (run Game inps)). a_direction a = d) \<and>
   (let as0 = (if aliens g = [] then formation else aliens g);
        moved = map alien_move as0
    in (edge_hit moved \<longrightarrow>
          map a_y (aliens (update_aliens g)) = map (\<lambda>a. a_y a + 20) as0 \<and>
          map a_direction (aliens (update_aliens g)) = map (\<lambda>a. - a_direction a) as0 \<and>
          map a_x (aliens (update_aliens g)) = map a_x moved) \<and>
       (\<not> edge_hit moved \<longrightarrow> aliens (update_aliens g) = moved)) \<and>
   (\<not> game_over g \<longrightarrow>
      (let g3 = update_aliens (update_bullets
                  (handle_input (snd (handle_events g (fst inp))) (snd inp)))
       in aliens g3 = aliens (update_aliens g) \<and>
          (if lives (snd (tick g inp)) < lives g \<and> 0 < lives (snd (tick g inp))
           then aliens (snd (tick g inp)) = formation
           else aliens (snd (tick g inp)) = aliens (check_collisions g3) \<and>
                subseq (aliens (snd (tick g inp))) (aliens (update_aliens g)))))"
proof -
  have "direction_ok (run Game inps)" by (rule direction_ok_run [OF direction_ok_Game])
  then have a: "\<exists>d\<in>{1, - 1}. \<forall>a\<in>set (aliens (run Game inps)). a_direction a = d"
    by (simp add: direction_ok_def)
  have b: "let as0 = (if aliens g = [] then formation else aliens g);
        moved = map alien_move as0
    in (edge_hit moved \<longrightarrow>
          map a_y (aliens (update_aliens g)) = map (\<lambda>a. a_y a + 20) as0 \<and>
          map a_direction (aliens (update_aliens g)) = map (\<lambda>a. - a_direction a) as0 \<and>
          map a_x (aliens (update_aliens g)) = map a_x moved) \<and>
       (\<not> edge_hit moved \<longrightarrow> aliens (update_aliens g) = moved)"
    by (simp add: update_aliens_eq Let_def drop_down_def alien_move_def ALIEN_DROP_SPEED_def)
  from a b tick_aliens [of g inp] show ?thesis by blast
qed

theorem formation_synchrony_witness:
  "(\<exists>d\<in>{1, - 1}. \<forall>a\<in>set (aliens (run Game [([], \<lambda>k. False)])). a_direction a = d) \<and>
   edge_hit (map alien_move (aliens edge_game)) \<and>
   map a_y (aliens edge_game) = [50, 100] \<and>
   map a_direction (aliens edge_game) = [1, 1] \<and>
   map a_y (aliens (update_aliens edge_game)) = [70, 120] \<and>
   map a_direction (aliens (update_aliens edge_game)) = [- 1, - 1] \<and>
   map a_x (aliens (update_aliens edge_game)) = [760, 101] \<and>
   \<not> edge_hit (map alien_move formation) \<and>
   aliens (update_aliens Game) = map alien_move formation \<and>
   \<not> game_over edge_game \<and>
   lives (snd (tick edge_game ([], \<lambda>k. False))) = lives edge_game \<and>
   subseq (aliens (snd (tick edge_game ([], \<lambda>k. False)))) (aliens (update_aliens edge_game)) \<and>
   \<not> game_over breached_game \<and>
   lives breached_game = 3 \<and>
   lives (snd (tick breached_game ([], \<lambda>k. False))) = 2 \<and>
   aliens (snd (tick breached_game ([], \<lambda>k. False))) = formation"
proof -
  have e: "edge_hit (map alien_move (aliens edge_game))"
    by (simp add: edge_game_def edge_hit_def alien_move_def Alien_def ALIEN_SPEED_def
        SCREEN_WIDTH_def)
  have n: "\<not> edge_hit (map alien_move formation)"
    by (simp add: edge_hit_def formation_def py_range_def upto.simps alien_move_def Alien_def
        ALIEN_SPEED_def SCREEN_WIDTH_def)
  have f: "formation \<noteq> []" using length_formation by auto
  have u: "(\<exists>d\<in>{1, - 1}. \<forall>a\<in>set (aliens (run Game [([], \<lambda>k. False)])). a_direction a = d) \<and>
   map a_y (aliens edge_game) = [50, 100] \<and>
   map a_direction (aliens edge_game) = [1, 1] \<and>
   map a_y (aliens (update_aliens edge_game)) = [70, 120] \<and>
   map a_direction (aliens (update_aliens edge_game)) = [- 1, - 1] \<and>
   map a_x (aliens (update_aliens edge_game)) = [760, 101] \<and>
   aliens (update_aliens Game) = map alien_move formation"
    using formation_synchrony [of "[([], \<lambda>k. False)]" edge_game]
      formation_synchrony [of "[]" Game] e n f
    by (simp add: Let_def Game_fields)
      (simp add: edge_game_def alien_move_def Alien_def ALIEN_SPEED_def)
  have ge: "\<not> game_over edge_game" "bullets edge_game = []"
    by (simp_all add: edge_game_def Game_fields)
  have ue: "update_aliens edge_game =
      edge_game\<lparr>aliens := map (drop_down \<circ> alien_move) (aliens edge_game)\<rparr>"
    using e by (simp add: update_aliens_eq edge_game_def)
  have le: "lives (snd (tick edge_game ([], \<lambda>k. False))) = lives edge_game"
    unfolding tick_no_bullets [OF ge] ue
    by (simp add: check_alien_collision_with_player_def alien_player_loop_eq)
      (simp add: edge_game_def Game_fields breach_def colliderect_def alien_get_rect_def
        player_get_rect_def Rect_def Player_def Alien_def drop_down_def alien_move_def
        ALIEN_SPEED_def ALIEN_DROP_SPEED_def SCREEN_HEIGHT_def)
  have se: "subseq (aliens (snd (tick edge_game ([], \<lambda>k. False))))
      (aliens (update_aliens edge_game))"
    using formation_synchrony [of "[]" edge_game "([], \<lambda>k. False)", unfolded Let_def]
      ge(1) le
    by (auto split: if_splits)
  have gb: "\<not> game_over breached_game" "bullets (breached_game\<lparr>bullets := []\<rparr>) = []"
    "lives breached_game = 3"
    by (simp_all add: breached_game_def Game_fields)
  have br: "\<exists>a\<in>set (aliens (check_collisions (update_aliens (update_bullets
      (handle_input breached_game (\<lambda>k. False)))))). breach (Player 375 520) a"
    by (simp add: handle_input_def update_bullets_def update_aliens_eq check_collisions_def
        breached_game_def Game_fields edge_hit_def is_off_screen_def Bullet_def
        colliderect_def bullet_get_rect_def alien_get_rect_def Rect_def bullet_move_def
        Alien_def alien_move_def ALIEN_SPEED_def BULLET_SPEED_def SCREEN_WIDTH_def
        breach_def SCREEN_HEIGHT_def)
  have pb: "player (check_collisions (update_aliens (update_bullets
      (handle_input breached_game (\<lambda>k. False))))) = Player 375 520"
    by (simp add: player_frame handle_input_def breached_game_def Game_fields)
  have lb: "lives (check_collisions (update_aliens (update_bullets
      (handle_input breached_game (\<lambda>k. False))))) = 3"
    by (simp add: lives_frame breached_game_def Game_fields)
  have ll: "lives (snd (tick breached_game ([], \<lambda>k. False))) = 2"
    using gb(1) br
    by (simp add: tick_def check_alien_collision_with_player_def alien_player_loop_eq pb lb)
  have fl: "aliens (snd (tick breached_game ([], \<lambda>k. False))) = formation"
    using formation_synchrony [of "[]" breached_game "([], \<lambda>k. False)", unfolded Let_def]
      gb(1,3) ll
    by (auto split: if_splits)
  from u e n ge(1) le se gb(1,3) ll fl show ?thesis by blast
qed

subsection \<open>Bullets against aliens\<close>

lemma hit_alien_None: "overlapping b as = [] \<Longrightarrow> hit_alien b as = None"
  by (induction as) (auto simp: overlapping_def split: if_splits)

lemma hit_alien_length: "hit_alien b as = Some as' \<Longrightarrow> Suc (length as') = length as"
  by (induction as arbitrary: as') (auto split: if_splits)

lemma collide_bullets_accounting:
  "collide_bullets bs as sc = (bs', as', sc') \<Longrightarrow>
   length bs' \<le> length bs \<and> length bs' + length as = length bs + length as' \<and>
   sc' = sc + 10 * int (length bs - length bs')"
proof (induction bs arbitrary: as sc bs' as' sc')
  case Nil
  then show ?case by simp
next
  case (Cons b bs)
  show ?case
  proof (cases "hit_alien b as")
    case None
    with Cons.prems obtain bs0 where c: "collide_bullets bs as sc = (bs0, as', sc')"
      and b: "bs' = b # bs0"
      by (auto split: prod.splits)
    from Cons.IH [OF c] b show ?thesis by simp
  next
    case (Some as1)
    with Cons.prems have c: "collide_bullets bs as1 (sc + 10) = (bs', as', sc')" by simp
    from Cons.IH [OF c] hit_alien_length [OF Some] show ?thesis
      by (auto simp: Suc_diff_le)
  qed
qed

text \<open>
  In any state, \<^verbatim>\<open>check_collisions\<close> removes as many aliens as bullets and adds 10
  to the score for each: no bullet takes out more than one alien.
\<close>

lemma check_collisions_accounting:
  "length (bullets (check_collisions g)) \<le> length (bullets g) \<and>
   length (bullets (check_collisions g)) + length (aliens g) =
     length (bullets g) + length (aliens (check_collisions g)) \<and>
   score (check_collisions g) =
     score g + 10 * int (length (bullets g) - length (bullets (check_collisions g)))"
proof -
  obtain bs' as' sc' where c: "collide_bullets (bullets g) (aliens g) (score g) = (bs', as', sc')"
    by (cases "collide_bullets (bullets g) (aliens g) (score g)")
  from collide_bullets_accounting [OF c] c show ?thesis
    by (simp add: check_collisions_def)
qed

lemma collide_bullets_no_hit:
  "\<forall>b\<in>set bs. overlapping b as = [] \<Longrightarrow> collide_bullets bs as sc = (bs, as, sc)"
  by (induction bs) (auto simp: hit_alien_None)

lemma hit_alien_first_removed:
  "overlapping b as \<noteq> [] \<Longrightarrow> hit_alien b as = Some (first_removed b as)"
  by (induction as) (auto simp: overlapping_def first_removed_def split: if_splits)

lemma first_removed_length:
  "overlapping b as \<noteq> [] \<Longrightarrow> Suc (length (first_removed b as)) = length as"
  using hit_alien_first_removed hit_alien_length by blast

text \<open>A hit of one bullet takes at most one of the aliens under another bullet.\<close>

lemma hit_alien_overlapping:
  "hit_alien b' as = Some as' \<Longrightarrow> length (overlapping b as) \<le> Suc (length (overlapping b as'))"
  by (induction as arbitrary: as') (auto simp: overlapping_def split: if_splits)

lemma collide_bullets_overlapping:
  "collide_bullets bs as sc = (bs', as', sc') \<Longrightarrow>
   length (overlapping b as) \<le> length (overlapping b as') + length bs"
proof (induction bs arbitrary: as sc bs' as' sc')
  case Nil
  then show ?case by simp
next
  case (Cons x bs)
  show ?case
  proof (cases "hit_alien x as")
    case None
    with Cons.prems obtain bs0 where "collide_bullets bs as sc = (bs0, as', sc')"
      by (auto split: prod.splits)
    from Cons.IH [OF this] show ?thesis by simp
  next
    case (Some as1)
    with Cons.prems have "collide_bullets bs as1 (sc + 10) = (bs', as', sc')" by simp
    from Cons.IH [OF this] hit_alien_overlapping [OF Some, of b] show ?thesis by simp
  qed
qed

text \<open>The loop over the bullets, cut at any place.\<close>

lemma collide_bullets_append:
  "collide_bullets (xs @ ys) as sc =
     (case collide_bullets xs as sc of (xs', as1, sc1) \<Rightarrow>
        case collide_bullets ys as1 sc1 of (ys', as2, sc2) \<Rightarrow> (xs' @ ys', as2, sc2))"
  by (induction xs arbitrary: as sc) (auto split: prod.splits option.splits)

text \<open>
  Claim C5, as the code has it. Let \<open>b\<close> be a bullet of the list, \<open>pre\<close> the bullets
  before it and \<open>post\<close> the ones after it, and let \<open>pre'\<close>, \<open>as1\<close> and \<open>sc1\<close> be the
  bullets of \<open>pre\<close>, the aliens and the score that are left when the loop of
  \<^verbatim>\<open>check_collisions\<close> comes to \<open>b\<close>.

  \<^item> When \<open>b\<close> lies over more aliens than there are bullets before it (for a bullet over
    two aliens: at most one), it still lies over an alien of \<open>as1\<close>.
  \<^item> When \<open>b\<close> lies over an alien of \<open>as1\<close>, then \<open>b\<close> is removed together with
    exactly one alien, the first of \<open>as1\<close> it lies over, and exactly 10 is added to the
    score before the loop goes on with \<open>post\<close>.
  \<^item> When the bullets before \<open>b\<close> have taken every alien it lay over, \<open>b\<close> stays in the
    list, and no alien is removed and nothing is scored for it.
  \<^item> In the whole call as many aliens as bullets are removed, and the score grows by
    exactly 10 for each of them.
\<close>

theorem single_kill_per_shot:
  assumes bs: "bullets g = pre @ b # post"
  shows "(case collide_bullets pre (aliens g) (score g) of (pre', as1, sc1) \<Rightarrow>
            (length pre < length (overlapping b (aliens g)) \<longrightarrow> overlapping b as1 \<noteq> []) \<and>
            (overlapping b as1 \<noteq> [] \<longrightarrow>
               hit_alien b as1 = Some (first_removed b as1) \<and>
               Suc (length (first_removed b as1)) = length as1 \<and>
               (case collide_bullets post (first_removed b as1) (sc1 + 10) of
                  (post', as3, sc3) \<Rightarrow>
                    check_collisions g = g\<lparr>bullets := pre' @ post', aliens := as3, score := sc3\<rparr>)) \<and>
            (overlapping b as1 = [] \<longrightarrow>
               (case collide_bullets post as1 sc1 of
                  (post', as3, sc3) \<Rightarrow>
                    check_collisions g =
                      g\<lparr>bullets := pre' @ b # post', aliens := as3, score := sc3\<rparr>))) \<and>
         length (bullets (check_collisions g)) + length (aliens g) =
           length (bullets g) + length (aliens (check_collisions g)) \<and>
         score (check_collisions g) =
           score g + 10 * int (length (bullets g) - length (bullets (check_collisions g)))"
proof -
  obtain pre' as1 sc1 where p: "collide_bullets pre (aliens g) (score g) = (pre', as1, sc1)"
    by (cases "collide_bullets pre (aliens g) (score g)")
  have few: "overlapping b as1 \<noteq> []" if "length pre < length (overlapping b (aliens g))"
    using collide_bullets_overlapping [OF p, of b] that by auto
  have hit: "hit_alien b as1 = Some (first_removed b as1) \<and>
      Suc (length (first_removed b as1)) = length as1 \<and>
      (case collide_bullets post (first_removed b as1) (sc1 + 10) of
         (post', as3, sc3) \<Rightarrow>
           check_collisions g = g\<lparr>bullets := pre' @ post', aliens := as3, score := sc3\<rparr>)"
    if ne: "overlapping b as1 \<noteq> []"
  proof -
    obtain post' as3 sc3 where
      q: "collide_bullets post (first_removed b as1) (sc1 + 10) = (post', as3, sc3)"
      by (cases "collide_bullets post (first_removed b as1) (sc1 + 10)")
    note h = hit_alien_first_removed [OF ne]
    have "collide_bullets (pre @ b # post) (aliens g) (score g) = (pre' @ post', as3, sc3)"
      by (simp add: collide_bullets_append p h q)
    then have "check_collisions g = g\<lparr>bullets := pre' @ post', aliens := as3, score := sc3\<rparr>"
      by (simp add: check_collisions_def bs)
    with h first_removed_length [OF ne] show ?thesis by (simp add: q)
  qed
  have miss: "case collide_bullets post as1 sc1 of
      (post', as3, sc3) \<Rightarrow>
        check_collisions g = g\<lparr>bullets := pre' @ b # post', aliens := as3, score := sc3\<rparr>"
    if e: "overlapping b as1 = []"
  proof -
    obtain post' as3 sc3 where q: "collide_bullets post as1 sc1 = (post', as3, sc3)"
      by (cases "collide_bullets post as1 sc1")
    note h = hit_alien_None [OF e]
    have "collide_bullets (pre @ b # post) (aliens g) (score g) = (pre' @ b # post', as3, sc3)"
      by (simp add: collide_bullets_append p h q)
    then show ?thesis by (simp add: check_collisions_def bs q)
  qed
  from few hit miss check_collisions_accounting [of g] show ?thesis
    by (simp add: p)
qed

theorem single_kill_per_shot_witness:
  "bullets shot_game = [Bullet 310 60] @ Bullet 100 100 # [Bullet 600 300] \<and>
   overlapping (Bullet 100 100) (aliens shot_game) = [Alien 80 95, Alien 90 90] \<and>
   collide_bullets [Bullet 310 60] (aliens shot_game) (score shot_game) =
     ([], [Alien 80 95, Alien 90 90], 50) \<and>
   first_removed (Bullet 100 100) [Alien 80 95, Alien 90 90] = [Alien 90 90] \<and>
   check_collisions shot_game =
     shot_game\<lparr>bullets := [Bullet 600 300], aliens := [Alien 90 90], score := 60\<rparr> \<and>
   bullets crowded_game = [Bullet 100 100, Bullet 100 100] @ Bullet 100 100 # [] \<and>
   collide_bullets [Bullet 100 100, Bullet 100 100] (aliens crowded_game) (score crowded_game) =
     ([], [], 60) \<and>
   overlapping (Bullet 100 100) [] = [] \<and>
   check_collisions crowded_game =
     crowded_game\<lparr>bullets := [Bullet 100 100], aliens := [], score := 60\<rparr>"
proof -
  have o: "overlapping (Bullet 100 100) (aliens shot_game) = [Alien 80 95, Alien 90 90]"
    by (simp add: shot_game_def overlapping_def colliderect_def bullet_get_rect_def
        alien_get_rect_def Rect_def Bullet_def Alien_def)
  have o1: "overlapping (Bullet 100 100) [Alien 80 95, Alien 90 90] \<noteq> []"
    by (simp add: overlapping_def colliderect_def bullet_get_rect_def
        alien_get_rect_def Rect_def Bullet_def Alien_def)
  have h1: "bullets shot_game = [Bullet 310 60] @ Bullet 100 100 # [Bullet 600 300]"
    by (simp add: shot_game_def)
  have p: "collide_bullets [Bullet 310 60] (aliens shot_game) (score shot_game) =
     ([], [Alien 80 95, Alien 90 90], 50)"
    by (simp add: shot_game_def colliderect_def bullet_get_rect_def
        alien_get_rect_def Rect_def Bullet_def Alien_def)
  have f: "first_removed (Bullet 100 100) [Alien 80 95, Alien 90 90] = [Alien 90 90]"
    by (simp add: first_removed_def colliderect_def bullet_get_rect_def
        alien_get_rect_def Rect_def Bullet_def Alien_def)
  have q: "collide_bullets [Bullet 600 300] [Alien 90 90] (50 + 10) =
      ([Bullet 600 300], [Alien 90 90], 60)"
    by (simp add: colliderect_def bullet_get_rect_def
        alien_get_rect_def Rect_def Bullet_def Alien_def)
  note t = single_kill_per_shot [OF h1, unfolded p prod.case f q]
  with o1 have "check_collisions shot_game =
      shot_game\<lparr>bullets := [] @ [Bullet 600 300], aliens := [Alien 90 90], score := 60\<rparr>"
    by blast
  then have c: "check_collisions shot_game =
      shot_game\<lparr>bullets := [Bullet 600 300], aliens := [Alien 90 90], score := 60\<rparr>"
    by simp
  have h2: "bullets crowded_game = [Bullet 100 100, Bullet 100 100] @ Bullet 100 100 # []"
    by (simp add: crowded_game_def)
  have p2: "collide_bullets [Bullet 100 100, Bullet 100 100] (aliens crowded_game)
      (score crowded_game) = ([], [], 60)"
    by (simp add: crowded_game_def colliderect_def bullet_get_rect_def
        alien_get_rect_def Rect_def Bullet_def Alien_def)
  have o2: "overlapping (Bullet 100 100) [] = []" by (simp add: overlapping_def)
  have q2: "collide_bullets [] [] 60 = ([], [], 60)" by simp
  note t2 = single_kill_per_shot [OF h2, unfolded p2 prod.case q2]
  with o2 have "check_collisions crowded_game =
      crowded_game\<lparr>bullets := [] @ Bullet 100 100 # [], aliens := [], score := 60\<rparr>"
    by blast
  then have c2: "check_collisions crowded_game =
      crowded_game\<lparr>bullets := [Bullet 100 100], aliens := [], score := 60\<rparr>"
    by simp
  from h1 o p f c h2 p2 o2 c2 show ?thesis by blast
qed

text \<open>
  Three bullets at one place over two aliens: every one of them lies over two aliens when
  \<^verbatim>\<open>check_collisions\<close> starts, but the first two take both aliens, so the third stays
  in the list, and the score grows by 20.
\<close>

theorem single_kill_per_shot_counterexample:
  "bullets crowded_game = [Bullet 100 100, Bullet 100 100, Bullet 100 100] \<and>
   overlapping (Bullet 100 100) (aliens crowded_game) = [Alien 80 95, Alien 90 90] \<and>
   check_collisions crowded_game =
     crowded_game\<lparr>bullets := [Bullet 100 100], aliens := [], score := score crowded_game + 20\<rparr>"
  by (simp add: crowded_game_def check_collisions_def overlapping_def colliderect_def
      bullet_get_rect_def alien_get_rect_def Rect_def Bullet_def Alien_def)

subsection \<open>A new wave\<close>

lemma formation_no_edge: "\<not> edge_hit (map alien_move formation)"
  by (simp add: edge_hit_def formation_def py_range_def upto.simps alien_move_def Alien_def
      ALIEN_SPEED_def SCREEN_WIDTH_def)

lemma formation_moved:
  "map alien_move formation =
     concat (map (\<lambda>row. map (\<lambda>col. Alien (col * 60 + 51) (row * 50 + 50)) (py_range 10))
                 (py_range 5))"
  by (simp add: formation_def py_range_def upto.simps alien_move_def Alien_def ALIEN_SPEED_def)

lemma formation_moved_direction: "map a_direction (map alien_move formation) = replicate 50 1"
  by (simp add: formation_def py_range_def upto.simps alien_move_def Alien_def ALIEN_SPEED_def
      numeral_eq_Suc)

text \<open>
  Claim C4, as the code has it. When there is no alien at the start of
  \<^verbatim>\<open>update_aliens\<close>, the call builds the grid of 5 rows by 10 columns and moves it in the
  same call: after it there are exactly 50 aliens, at \<open>x = col * 60 + 51\<close> and
  \<open>y = row * 50 + 50\<close>, one step to the right of the grid coordinates, all with
  direction 1. Nothing else of the state changes.
\<close>

theorem wave_regeneration:
  assumes "aliens g = []"
  shows "update_aliens g = g\<lparr>aliens := map alien_move formation\<rparr> \<and>
    aliens (update_aliens g) =
      concat (map (\<lambda>row. map (\<lambda>col. Alien (col * 60 + 51) (row * 50 + 50)) (py_range 10))
                  (py_range 5)) \<and>
    length (aliens (update_aliens g)) = 50 \<and>
    map a_direction (aliens (update_aliens g)) = replicate 50 1"
proof -
  have u: "update_aliens g = g\<lparr>aliens := map alien_move formation\<rparr>"
    using assms formation_no_edge by (simp add: update_aliens_eq)
  have a: "aliens (update_aliens g) = map alien_move formation" by (simp add: u)
  have l: "length (aliens (update_aliens g)) = 50"
    unfolding a by (simp add: length_formation)
  have d: "map a_direction (aliens (update_aliens g)) = replicate 50 1"
    unfolding a by (rule formation_moved_direction)
  from u a [unfolded formation_moved] l d show ?thesis by blast
qed

theorem wave_regeneration_witness:
  "aliens cleared_game = [] \<and>
   update_aliens cleared_game = cleared_game\<lparr>aliens := map alien_move formation\<rparr> \<and>
   length (aliens (update_aliens cleared_game)) = 50 \<and>
   take 3 (aliens (update_aliens cleared_game)) = [Alien 51 50, Alien 111 50, Alien 171 50]"
proof -
  have h: "aliens cleared_game = []" by (simp add: cleared_game_def)
  have t: "take 3 (concat (map (\<lambda>row. map (\<lambda>col. Alien (col * 60 + 51) (row * 50 + 50))
      (py_range 10)) (py_range 5))) = [Alien 51 50, Alien 111 50, Alien 171 50]"
    by (simp add: py_range_def upto.simps)
  from wave_regeneration [OF h] have
    w: "update_aliens cleared_game = cleared_game\<lparr>aliens := map alien_move formation\<rparr>"
      "aliens (update_aliens cleared_game) =
         concat (map (\<lambda>row. map (\<lambda>col. Alien (col * 60 + 51) (row * 50 + 50)) (py_range 10))
                  (py_range 5))"
      "length (aliens (update_aliens cleared_game)) = 50"
    by blast+
  have "take 3 (aliens (update_aliens cleared_game)) = [Alien 51 50, Alien 111 50, Alien 171 50]"
    unfolding w(2) by (rule t)
  with h w(1,3) show ?thesis by blast
qed

text \<open>
  The aliens after the update are not at the grid coordinates \<open>x = col * 60 + 50\<close>: the
  first one is at \<open>x = 51\<close>.
\<close>

theorem wave_regeneration_counterexample:
  "aliens (update_aliens cleared_game) \<noteq> formation \<and>
   a_x (hd (aliens (update_aliens cleared_game))) = 51 \<and> a_x (hd formation) = 50"
proof -
  have u: "aliens (update_aliens cleared_game) = map alien_move formation"
    using formation_no_edge by (simp add: update_aliens_eq cleared_game_def)
  have f: "hd formation = Alien 50 50"
    by (simp add: formation_def py_range_def upto.simps)
  have m: "hd (map alien_move formation) = Alien 51 50"
    unfolding formation_moved by (simp add: py_range_def upto.simps)
  have ne: "map alien_move formation \<noteq> formation"
  proof
    assume "map alien_move formation = formation"
    then have "hd (map alien_move formation) = hd formation" by simp
    with f m show False by (simp add: Alien_def)
  qed
  show ?thesis using u f m ne by (simp add: Alien_def)
qed

subsection \<open>Whole ticks on a complete formation\<close>

lemma formation_grid: "formation = grid 50 50 1"
  by (simp add: formation_def grid_def py_range_def upto.simps Alien_def)

lemma grid_not_Nil: "grid dx y d \<noteq> []"
  by (simp add: grid_def py_range_def upto.simps)

lemma grid_move: "map alien_move (grid dx y d) = grid (dx + d) y d"
  by (simp add: grid_def py_range_def upto.simps Alien_def alien_move_def ALIEN_SPEED_def)

lemma grid_drop: "map drop_down (grid dx y d) = grid dx (y + 20) (- d)"
  by (simp add: grid_def py_range_def upto.simps Alien_def drop_down_def ALIEN_DROP_SPEED_def)

lemma grid_edge: "edge_hit (grid dx y d) \<longleftrightarrow> dx \<le> 0 \<or> 220 \<le> dx"
  by (simp add: grid_def py_range_def upto.simps Alien_def edge_hit_def SCREEN_WIDTH_def) arith

text \<open>
  While the top row is at \<open>y \<le> 290\<close>, the bottom row is above the floor line and above
  the player; a bullet fired from the left edge passes to the left of a formation at
  \<open>dx \<ge> 28\<close>.
\<close>

lemma grid_no_breach:
  "y \<le> 290 \<Longrightarrow> \<not> (\<exists>a\<in>set (grid dx y d). breach (Player px 520) a)"
  by (simp add: grid_def py_range_def upto.simps Alien_def breach_def colliderect_def
      alien_get_rect_def player_get_rect_def Rect_def Player_def SCREEN_HEIGHT_def)

lemma grid_clear_left:
  "28 \<le> dx \<Longrightarrow> overlapping (Bullet 23 yb) (grid dx y d) = []"
  by (simp add: grid_def py_range_def upto.simps Alien_def overlapping_def colliderect_def
      alien_get_rect_def bullet_get_rect_def Rect_def Bullet_def)

lemma play_fields:
  "player (play px bs dx y d) = Player px 520" "bullets (play px bs dx y d) = bs"
  "aliens (play px bs dx y d) = grid dx y d" "score (play px bs dx y d) = 0"
  "lives (play px bs dx y d) = 3" "game_over (play px bs dx y d) = False"
  by (simp_all add: play_def Game_fields)

lemma play_update:
  "(play px bs dx y d)\<lparr>bullets := bs'\<rparr> = play px bs' dx y d"
  "(play px bs dx y d)\<lparr>aliens := grid dx' y' d'\<rparr> = play px bs dx' y' d'"
  by (simp_all add: play_def)

lemma Game_play: "Game = play 375 [] 50 50 1"
  by (simp add: play_def formation_grid [symmetric] Game_def create_alien_formation_def
      SCREEN_WIDTH_def SCREEN_HEIGHT_def)

lemma check_collisions_no_hit:
  "\<forall>b\<in>set (bullets g). overlapping b (aliens g) = [] \<Longrightarrow> check_collisions g = g"
  by (simp add: check_collisions_def collide_bullets_no_hit)

text \<open>
  The four updates of a tick on such a state, when no bullet lies over an alien after
  them: the bullets on screen move, the formation moves and drops at an edge.
\<close>

lemma updates_play:
  assumes "y \<le> 290" and "dx + d \<le> 0 \<or> 220 \<le> dx + d \<Longrightarrow> y \<le> 270"
    and "\<forall>b\<in>set bs. \<not> is_off_screen b \<longrightarrow>
           overlapping (bullet_move b) (grid (dx + d) y d) = [] \<and>
           overlapping (bullet_move b) (grid (dx + d) (y + 20) (- d)) = []"
  shows "check_alien_collision_with_player (check_collisions (update_aliens (update_bullets
      (play px bs dx y d)))) =
    (if dx + d \<le> 0 \<or> 220 \<le> dx + d
     then play px (map bullet_move (filter (\<lambda>b. \<not> is_off_screen b) bs)) (dx + d) (y + 20) (- d)
     else play px (map bullet_move (filter (\<lambda>b. \<not> is_off_screen b) bs)) (dx + d) y d)"
proof -
  let ?bs = "map bullet_move (filter (\<lambda>b. \<not> is_off_screen b) bs)"
  let ?g = "if dx + d \<le> 0 \<or> 220 \<le> dx + d then play px ?bs (dx + d) (y + 20) (- d)
     else play px ?bs (dx + d) y d"
  have b: "update_bullets (play px bs dx y d) = play px ?bs dx y d"
    by (simp add: update_bullets_def play_fields play_update)
  have a: "update_aliens (play px ?bs dx y d) = ?g"
    by (simp add: update_aliens_eq play_fields grid_not_Nil grid_move grid_edge grid_drop
        play_update map_map [symmetric] del: map_map)
  have c: "check_collisions ?g = ?g"
    using assms(3) by (intro check_collisions_no_hit) (simp add: play_fields)
  have p: "check_alien_collision_with_player ?g = ?g"
    using assms(1,2) grid_no_breach [of "y + 20" "dx + d" "- d" px]
      grid_no_breach [of y "dx + d" d px]
    by (cases "dx + d \<le> 0 \<or> 220 \<le> dx + d")
      (simp_all add: check_alien_collision_with_player_def alien_player_loop_eq play_fields)
  show ?thesis by (simp only: b a c p)
qed

lemma tick_idle_plain:
  assumes "y \<le> 290" and "0 < dx + d" and "dx + d < 220"
  shows "tick (play px [] dx y d) idle = (True, play px [] (dx + d) y d)"
proof -
  have i: "handle_input (play px [] dx y d) (\<lambda>k. False) = play px [] dx y d"
    by (simp add: handle_input_def)
  show ?thesis
    using assms updates_play [of y dx d "[]" px]
    by (simp add: tick_def idle_def play_fields i)
qed

lemma tick_idle_drop:
  assumes "y \<le> 270" and "dx + d \<le> 0 \<or> 220 \<le> dx + d"
  shows "tick (play px [] dx y d) idle = (True, play px [] (dx + d) (y + 20) (- d))"
proof -
  have i: "handle_input (play px [] dx y d) (\<lambda>k. False) = play px [] dx y d"
    by (simp add: handle_input_def)
  show ?thesis
    using assms updates_play [of y dx d "[]" px]
    by (simp add: tick_def idle_def play_fields i)
qed

lemma tick_hold_left:
  assumes "y \<le> 290" and "0 < dx + 1" and "dx + 1 < 220" and "0 < px"
  shows "tick (play px [] dx y 1) hold_left = (True, play (px - 5) [] (dx + 1) y 1)"
proof -
  have i: "handle_input (play px [] dx y 1) (\<lambda>k. k = K_LEFT) = play (px - 5) [] dx y 1"
    using assms(4)
    by (simp add: handle_input_def move_left_def Player_def PLAYER_SPEED_def
        play_def Game_fields)
  show ?thesis
    using assms(1-3) updates_play [of y dx 1 "[]" "px - 5"]
    by (simp add: tick_def hold_left_def play_fields i)
qed

lemma tick_fire:
  assumes "y \<le> 290" and "27 \<le> dx" and "dx + 1 < 220"
  shows "tick (play 0 [] dx y 1) fire = (True, play 0 [Bullet 23 513] (dx + 1) y 1)"
proof -
  have e: "handle_events (play 0 [] dx y 1) [KEYDOWN K_SPACE] =
      (True, play 0 [Bullet 23 520] dx y 1)"
    by (simp add: handle_event_def Player_def play_def Game_fields)
  have i: "handle_input (play 0 [Bullet 23 520] dx y 1) (\<lambda>k. False) =
      play 0 [Bullet 23 520] dx y 1"
    by (simp add: handle_input_def)
  have m: "bullet_move (Bullet 23 520) = Bullet 23 513"
    by (simp add: bullet_move_def Bullet_def BULLET_SPEED_def)
  have n: "\<not> is_off_screen (Bullet 23 520)"
    by (simp add: is_off_screen_def Bullet_def)
  have "check_alien_collision_with_player (check_collisions (update_aliens (update_bullets
      (play 0 [Bullet 23 520] dx y 1)))) = play 0 [Bullet 23 513] (dx + 1) y 1"
    using assms n updates_play [of y dx 1 "[Bullet 23 520]" 0]
    by (simp add: m grid_clear_left)
  then show ?thesis
    by (simp add: tick_def fire_def e i play_fields del: handle_events.simps)
qed

lemma tick_idle_bullet:
  assumes "y \<le> 290" and "27 \<le> dx" and "dx + 1 < 220"
  shows "tick (play 0 [Bullet 23 yb] dx y 1) idle =
    (True, play 0 (if 0 \<le> yb then [Bullet 23 (yb - 7)] else []) (dx + 1) y 1)"
proof -
  have i: "handle_input (play 0 [Bullet 23 yb] dx y 1) (\<lambda>k. False) =
      play 0 [Bullet 23 yb] dx y 1"
    by (simp add: handle_input_def)
  have m: "bullet_move (Bullet 23 yb) = Bullet 23 (yb - 7)"
    by (simp add: bullet_move_def Bullet_def BULLET_SPEED_def)
  have n: "is_off_screen (Bullet 23 yb) \<longleftrightarrow> yb < 0"
    by (simp add: is_off_screen_def Bullet_def)
  have "check_alien_collision_with_player (check_collisions (update_aliens (update_bullets
      (play 0 [Bullet 23 yb] dx y 1)))) =
      play 0 (if 0 \<le> yb then [Bullet 23 (yb - 7)] else []) (dx + 1) y 1"
    using assms updates_play [of y dx 1 "[Bullet 23 yb]" 0]
    by (simp add: m n grid_clear_left)
  then show ?thesis
    by (simp add: tick_def idle_def i play_fields)
qed

subsection \<open>Runs\<close>

lemma handle_events_running: "QUIT \<notin> set evs \<Longrightarrow> fst (handle_events g evs) = True"
proof (induction evs arbitrary: g)
  case Nil
  show ?case by simp
next
  case (Cons e evs)
  then show ?case
    by (cases e) (auto simp: handle_event_def Let_def)
qed

lemma run_append:
  "\<forall>inp\<in>set xs. QUIT \<notin> set (fst inp) \<Longrightarrow> run g (xs @ ys) = run (run g xs) ys"
proof (induction xs arbitrary: g)
  case Nil
  show ?case by simp
next
  case (Cons inp xs)
  then have "fst (handle_events g (fst inp)) = True"
    by (intro handle_events_running) simp
  then have "fst (tick g inp) = True"
    by (cases "handle_events g (fst inp)") (simp add: tick_def)
  with Cons show ?case by (cases "tick g inp") simp
qed

lemma run_idle_add:
  "run g (replicate (m + n) idle) = run (run g (replicate m idle)) (replicate n idle)"
  by (simp add: replicate_add run_append idle_def)

lemma run_idle_right:
  "y \<le> 290 \<Longrightarrow> 0 \<le> dx \<Longrightarrow> dx + int n < 220 \<Longrightarrow>
   run (play px [] dx y 1) (replicate n idle) = play px [] (dx + int n) y 1"
proof (induction n arbitrary: dx)
  case 0
  show ?case by simp
next
  case (Suc n)
  have "tick (play px [] dx y 1) idle = (True, play px [] (dx + 1) y 1)"
    using Suc.prems by (intro tick_idle_plain) simp_all
  moreover have "run (play px [] (dx + 1) y 1) (replicate n idle) =
      play px [] (dx + 1 + int n) y 1"
    using Suc.prems by (intro Suc.IH) simp_all
  ultimately show ?case by (simp add: algebra_simps)
qed

lemma run_idle_left:
  "y \<le> 290 \<Longrightarrow> dx \<le> 220 \<Longrightarrow> 0 < dx - int n \<Longrightarrow>
   run (play px [] dx y (- 1)) (replicate n idle) = play px [] (dx - int n) y (- 1)"
proof (induction n arbitrary: dx)
  case 0
  show ?case by simp
next
  case (Suc n)
  have "tick (play px [] dx y (- 1)) idle = (True, play px [] (dx + - 1) y (- 1))"
    using Suc.prems by (intro tick_idle_plain) simp_all
  moreover have "run (play px [] (dx + - 1) y (- 1)) (replicate n idle) =
      play px [] (dx + - 1 - int n) y (- 1)"
    using Suc.prems by (intro Suc.IH) simp_all
  ultimately show ?case by (simp add: algebra_simps)
qed

text \<open>
  Left alone, the formation crosses the screen in 220 ticks, the last of which drops it,
  and is back 440 ticks later, 40 lower.
\<close>

lemma run_idle_cross_right:
  assumes "y \<le> 270"
  shows "run (play px [] 0 y 1) (replicate 220 idle) = play px [] 220 (y + 20) (- 1)"
proof -
  have "run (play px [] 0 y 1) (replicate (219 + 1) idle) =
      run (play px [] 219 y 1) (replicate 1 idle)"
    unfolding run_idle_add using run_idle_right [of y 0 219 px] assms by simp
  also have "\<dots> = play px [] 220 (y + 20) (- 1)"
    using tick_idle_drop [of y 219 1 px] assms by simp
  finally show ?thesis by simp
qed

lemma run_idle_cross_left:
  assumes "y \<le> 270"
  shows "run (play px [] 220 y (- 1)) (replicate 220 idle) = play px [] 0 (y + 20) 1"
proof -
  have "run (play px [] 220 y (- 1)) (replicate (219 + 1) idle) =
      run (play px [] 1 y (- 1)) (replicate 1 idle)"
    unfolding run_idle_add using run_idle_left [of y 220 219 px] assms by simp
  also have "\<dots> = play px [] 0 (y + 20) 1"
    using tick_idle_drop [of y 1 "- 1" px] assms by simp
  finally show ?thesis by simp
qed

lemma run_idle_period:
  assumes "y \<le> 250"
  shows "run (play px [] 0 y 1) (replicate 440 idle) = play px [] 0 (y + 40) 1"
proof -
  have "run (play px [] 0 y 1) (replicate (220 + 220) idle) =
      run (play px [] 220 (y + 20) (- 1)) (replicate 220 idle)"
    unfolding run_idle_add using run_idle_cross_right [of y px] assms by simp
  also have "\<dots> = play px [] 0 (y + 20 + 20) 1"
    using assms by (intro run_idle_cross_left) simp
  finally show ?thesis by (simp add: add.assoc)
qed

lemma run_hold_left:
  "y \<le> 290 \<Longrightarrow> 0 \<le> dx \<Longrightarrow> dx + int n < 220 \<Longrightarrow> 0 \<le> px - 5 * int n + 4 \<Longrightarrow>
   run (play px [] dx y 1) (replicate n hold_left) = play (px - 5 * int n) [] (dx + int n) y 1"
proof (induction n arbitrary: px dx)
  case 0
  show ?case by simp
next
  case (Suc n)
  have "tick (play px [] dx y 1) hold_left = (True, play (px - 5) [] (dx + 1) y 1)"
    using Suc.prems by (intro tick_hold_left) simp_all
  moreover have "run (play (px - 5) [] (dx + 1) y 1) (replicate n hold_left) =
      play (px - 5 - 5 * int n) [] (dx + 1 + int n) y 1"
    using Suc.prems by (intro Suc.IH) simp_all
  ultimately show ?case by (simp add: algebra_simps)
qed

lemma run_idle_bullet:
  "y \<le> 290 \<Longrightarrow> 27 \<le> dx \<Longrightarrow> dx + int n < 220 \<Longrightarrow> 0 \<le> yb - 7 * int n + 7 \<Longrightarrow>
   run (play 0 [Bullet 23 yb] dx y 1) (replicate n idle) =
     play 0 [Bullet 23 (yb - 7 * int n)] (dx + int n) y 1"
proof (induction n arbitrary: yb dx)
  case 0
  show ?case by simp
next
  case (Suc n)
  have "tick (play 0 [Bullet 23 yb] dx y 1) idle =
      (True, play 0 (if 0 \<le> yb then [Bullet 23 (yb - 7)] else []) (dx + 1) y 1)"
    using Suc.prems by (intro tick_idle_bullet) simp_all
  moreover have "0 \<le> yb" using Suc.prems by simp
  moreover have "run (play 0 [Bullet 23 (yb - 7)] (dx + 1) y 1) (replicate n idle) =
      play 0 [Bullet 23 (yb - 7 - 7 * int n)] (dx + 1 + int n) y 1"
    using Suc.prems by (intro Suc.IH) simp_all
  ultimately show ?case by (simp add: algebra_simps)
qed

subsection \<open>A drop that ends in a breach\<close>

text \<open>
  A game in which nothing is done: the formation drops at tick 170 and then every 220
  ticks. After 2809 ticks it has dropped twelve times and stands one step from the right
  edge, the bottom row at \<open>y = 490\<close>.
\<close>

lemma descended_reachable: "run Game (replicate 2809 idle) = descended_game"
proof -
  have s1: "run (play 375 [] 50 50 1) (replicate 169 idle) = play 375 [] 219 50 1"
    using run_idle_right [of 50 50 169 375] by simp
  have s2: "run (play 375 [] 219 50 1) (replicate 1 idle) = play 375 [] 220 70 (- 1)"
    using tick_idle_drop [of 50 219 1 375] by simp
  have s3: "run (play 375 [] 220 70 (- 1)) (replicate 220 idle) = play 375 [] 0 90 1"
    using run_idle_cross_left [of 70 375] by simp
  have s4: "run (play 375 [] 0 90 1) (replicate 440 idle) = play 375 [] 0 130 1"
    using run_idle_period [of 90 375] by simp
  have s5: "run (play 375 [] 0 130 1) (replicate 440 idle) = play 375 [] 0 170 1"
    using run_idle_period [of 130 375] by simp
  have s6: "run (play 375 [] 0 170 1) (replicate 440 idle) = play 375 [] 0 210 1"
    using run_idle_period [of 170 375] by simp
  have s7: "run (play 375 [] 0 210 1) (replicate 440 idle) = play 375 [] 0 250 1"
    using run_idle_period [of 210 375] by simp
  have s8: "run (play 375 [] 0 250 1) (replicate 440 idle) = play 375 [] 0 290 1"
    using run_idle_period [of 250 375] by simp
  have s9: "run (play 375 [] 0 290 1) (replicate 219 idle) = play 375 [] 219 290 1"
    using run_idle_right [of 290 0 219 375] by simp
  have "(2809::nat) = 169 + (1 + (220 + (440 + (440 + (440 + (440 + (440 + 219)))))))"
    by simp
  then have "run Game (replicate 2809 idle) =
      run Game (replicate (169 + (1 + (220 + (440 + (440 + (440 + (440 + (440 + 219))))))))
        idle)"
    by simp
  also have "\<dots> = descended_game"
    by (simp only: run_idle_add Game_play s1 s2 s3 s4 s5 s6 s7 s8 s9 descended_game_def)
  finally show ?thesis .
qed

lemma descended_edge: "edge_hit (map alien_move (aliens descended_game))"
  by (simp add: descended_game_def play_fields grid_move grid_edge)

text \<open>
  The next tick finds the edge hit and drops the formation, which takes the bottom row to
  \<open>y = 510\<close>, below the floor line at 500; the same tick takes a life and builds the
  formation anew.
\<close>

lemma descended_tick: "tick descended_game idle = (True, Game\<lparr>lives := 2\<rparr>)"
proof -
  let ?g = "play 375 [] 219 290 1"
  let ?g3 = "play 375 [] 220 310 (- 1)"
  have i: "handle_input ?g (\<lambda>k. False) = ?g" by (simp add: handle_input_def)
  have b: "update_bullets ?g = ?g" by (simp add: update_bullets_def play_fields play_update)
  have a: "update_aliens ?g = ?g3"
    by (simp add: update_aliens_eq play_fields grid_not_Nil grid_move grid_edge grid_drop
        play_update map_map [symmetric] del: map_map)
  have c: "check_collisions ?g3 = ?g3"
    by (intro check_collisions_no_hit) (simp add: play_fields)
  have br: "\<exists>a\<in>set (grid 220 310 (- 1)). breach (Player 375 520) a"
    by (simp add: grid_def py_range_def upto.simps breach_def Alien_def SCREEN_HEIGHT_def)
  have p: "check_alien_collision_with_player ?g3 = ?g3\<lparr>lives := 2, aliens := formation\<rparr>"
    using br by (simp add: check_alien_collision_with_player_def alien_player_loop_eq play_fields)
  have e: "?g3\<lparr>lives := 2, aliens := formation\<rparr> = Game\<lparr>lives := 2\<rparr>"
    by (simp add: play_def Game_def create_alien_formation_def SCREEN_WIDTH_def
        SCREEN_HEIGHT_def)
  show ?thesis
    by (simp add: descended_game_def tick_def idle_def play_fields i b a c p e)
qed

text \<open>
  So in tick 2810 of that game an edge hit is detected, and yet at the end of the tick no
  alien is 20 lower than before and no direction has changed sign: the first alien was at
  \<open>y = 290\<close> moving right and is at \<open>y = 50\<close> moving right.
\<close>

theorem formation_synchrony_counterexample:
  "run Game (replicate 2809 idle) = descended_game \<and>
   edge_hit (map alien_move (aliens descended_game)) \<and>
   tick descended_game idle = (True, Game\<lparr>lives := 2\<rparr>) \<and>
   a_y (hd (aliens descended_game)) = 290 \<and>
   a_direction (hd (aliens descended_game)) = 1 \<and>
   a_y (hd (aliens (snd (tick descended_game idle)))) = 50 \<and>
   a_direction (hd (aliens (snd (tick descended_game idle)))) = 1 \<and>
   map a_y (aliens (snd (tick descended_game idle))) \<noteq>
     map (\<lambda>a. a_y a + 20) (aliens descended_game)"
proof -
  have d: "hd (aliens descended_game) = (Alien 219 290)\<lparr>a_direction := 1\<rparr>"
    by (simp add: descended_game_def play_fields grid_def py_range_def upto.simps)
  have f: "hd formation = Alien 50 50"
    by (simp add: formation_def py_range_def upto.simps)
  have t: "aliens (snd (tick descended_game idle)) = formation"
    by (simp add: descended_tick Game_fields)
  have ne: "map a_y formation \<noteq> map (\<lambda>a. a_y a + 20) (aliens descended_game)"
  proof
    assume "map a_y formation = map (\<lambda>a. a_y a + 20) (aliens descended_game)"
    then have "hd (map a_y formation) = hd (map (\<lambda>a. a_y a + 20) (aliens descended_game))"
      by simp
    then have "a_y (hd formation) = a_y (hd (aliens descended_game)) + 20"
      using grid_not_Nil [of 50 50 1] grid_not_Nil [of 219 290 1]
      by (simp add: hd_map formation_grid descended_game_def play_fields)
    then show False by (simp add: d f Alien_def)
  qed
  show ?thesis
    unfolding t using descended_reachable descended_edge descended_tick ne d f
    by (simp add: Alien_def)
qed

subsection \<open>Bullets leaving the screen\<close>

lemma bullets_update_bullets:
  "bullets (update_bullets g) = map bullet_move (filter (\<lambda>b. \<not> is_off_screen b) (bullets g))"
  by (simp add: update_bullets_def)

text \<open>
  The bullets after \<open>k\<close> calls of \<^verbatim>\<open>update_bullets\<close>, for bullets that move up or
  stand still: a bullet is dropped by the first call that finds it with \<open>y < 0\<close>, which is
  the call after the move that took it there.
\<close>

lemma update_bullets_funpow:
  assumes "\<forall>b\<in>set (bullets g). 0 \<le> b_speed b"
  shows "bullets ((update_bullets ^^ k) g) =
    map (\<lambda>b. b\<lparr>b_y := b_y b - int k * b_speed b\<rparr>)
      (filter (\<lambda>b. k = 0 \<or> (int k - 1) * b_speed b \<le> b_y b) (bullets g))"
proof (induction k)
  case 0
  show ?case by simp
next
  case (Suc k)
  let ?U = "\<lambda>b. b\<lparr>b_y := b_y b - int k * b_speed b\<rparr>"
  let ?U' = "\<lambda>b. b\<lparr>b_y := b_y b - int (Suc k) * b_speed b\<rparr>"
  let ?P = "\<lambda>b. k = 0 \<or> (int k - 1) * b_speed b \<le> b_y b"
  let ?P' = "\<lambda>b. Suc k = 0 \<or> (int (Suc k) - 1) * b_speed b \<le> b_y b"
  have mv: "bullet_move (?U b) = ?U' b" for b
    by (simp add: bullet_move_def algebra_simps)
  have fl: "filter (\<lambda>b. ?P b \<and> \<not> is_off_screen (?U b)) (bullets g) = filter ?P' (bullets g)"
  proof (rule filter_cong [OF refl])
    fix b assume "b \<in> set (bullets g)"
    with assms have s: "0 \<le> b_speed b" by simp
    have "(int k - 1) * b_speed b \<le> int k * b_speed b"
      using s by (simp add: mult_right_mono)
    then show "(?P b \<and> \<not> is_off_screen (?U b)) = ?P' b"
      by (auto simp: is_off_screen_def)
  qed
  have "bullets ((update_bullets ^^ Suc k) g) =
      map bullet_move (filter (\<lambda>b. \<not> is_off_screen b) (map ?U (filter ?P (bullets g))))"
    by (simp add: bullets_update_bullets Suc.IH)
  also have "\<dots> = map (\<lambda>b. bullet_move (?U b))
      (filter (\<lambda>b. ?P b \<and> \<not> is_off_screen (?U b)) (bullets g))"
    by (simp add: filter_map o_def)
  also have "\<dots> = map ?U' (filter ?P' (bullets g))"
    unfolding mv fl ..
  finally show ?case .
qed

text \<open>
  A run of the game in which a bullet meets no alien. The left arrow is held for 75 ticks,
  which takes the player to the left edge while the formation moves right. A fire command
  in tick 76 creates a bullet at \<open>(23, 520)\<close>, which that tick moves to \<open>y = 513\<close>; no
  input follows. The formation is to the right of the bullet all the time.
\<close>

lemma late_bullet_before: "run Game (replicate 75 hold_left) = play 0 [] 125 50 1"
  unfolding Game_play using run_hold_left [of 50 50 75 375] by simp

lemma late_bullet_fired: "tick (play 0 [] 125 50 1) fire = (True, play 0 [Bullet 23 513] 126 50 1)"
  using tick_fire [of 50 125] by simp

lemma late_bullet_run:
  "run Game (replicate 75 hold_left @ fire # replicate 74 idle) =
     play 0 [Bullet 23 (- 5)] 200 50 1"
proof -
  have q: "\<forall>inp\<in>set (replicate 75 hold_left). QUIT \<notin> set (fst inp)"
    by (simp add: hold_left_def)
  have c: "run (play 0 [Bullet 23 513] 126 50 1) (replicate 74 idle) =
      play 0 [Bullet 23 (- 5)] 200 50 1"
    using run_idle_bullet [of 50 126 74 513] by simp
  show ?thesis by (simp add: run_append [OF q] late_bullet_before late_bullet_fired c)
qed

lemma late_bullet_gone:
  "run Game (replicate 75 hold_left @ fire # replicate 75 idle) = play 0 [] 201 50 1"
proof -
  have q: "\<forall>inp\<in>set (replicate 75 hold_left @ fire # replicate 74 idle).
      QUIT \<notin> set (fst inp)"
    by (auto simp: hold_left_def fire_def idle_def)
  have r: "replicate 75 hold_left @ fire # replicate 75 idle =
      (replicate 75 hold_left @ fire # replicate 74 idle) @ [idle]"
    by (simp add: replicate_append_same numeral_eq_Suc)
  have t: "tick (play 0 [Bullet 23 (- 5)] 200 50 1) idle = (True, play 0 [] 201 50 1)"
    using tick_idle_bullet [of 50 200 "- 5"] by simp
  show ?thesis
    by (simp only: r run_append [OF q] late_bullet_run) (simp add: t)
qed

text \<open>
  Claim C1. A bullet created at height \<open>y0\<close> that meets no alien is to be out of the list
  after \<open>\<lceil>y0 / speed\<rceil>\<close> ticks and never to be drawn with \<open>y < 0\<close>.
  \<^verbatim>\<open>update_bullets\<close> removes the bullets that are off screen before it moves the others,
  so a bullet that a move takes above the top stays in the list until the next tick.
  The bullet of the run above is created at height 520. After \<open>\<lceil>520 / 7\<rceil> = 75\<close> ticks,
  at the end of tick 150, it is still in the list, at \<open>y = -5\<close>, and is drawn there; tick
  151 removes it. The same is seen on \<^verbatim>\<open>update_bullets\<close> alone, for the bullet fired in
  the initial state.
\<close>

theorem projectile_drawn_off_screen:
  "nat \<lceil>520 / real_of_int BULLET_SPEED\<rceil> = 75 \<and>
   run Game (replicate 75 hold_left) = play 0 [] 125 50 1 \<and>
   handle_event (play 0 [] 125 50 1) (KEYDOWN K_SPACE) = Some (play 0 [Bullet 23 520] 125 50 1) \<and>
   run Game (replicate 75 hold_left @ fire # replicate 74 idle) =
     play 0 [Bullet 23 (- 5)] 200 50 1 \<and>
   is_off_screen (Bullet 23 (- 5)) \<and>
   run Game (replicate 75 hold_left @ fire # replicate 75 idle) = play 0 [] 201 50 1 \<and>
   bullets ((update_bullets ^^ 75) fired_game) = [Bullet 398 (- 5)]"
proof -
  have n: "nat \<lceil>520 / real_of_int BULLET_SPEED\<rceil> = 75"
    by (simp add: BULLET_SPEED_def)
  have h: "handle_event (play 0 [] 125 50 1) (KEYDOWN K_SPACE) =
      Some (play 0 [Bullet 23 520] 125 50 1)"
    by (simp add: handle_event_def Player_def play_def Game_fields)
  have o: "is_off_screen (Bullet 23 (- 5))"
    by (simp add: is_off_screen_def Bullet_def)
  have sp: "\<forall>b\<in>set (bullets fired_game). 0 \<le> b_speed b"
    by (simp add: fired_game_def Bullet_def BULLET_SPEED_def)
  have u: "bullets ((update_bullets ^^ 75) fired_game) = [Bullet 398 (- 5)]"
    unfolding update_bullets_funpow [OF sp]
    by (simp add: fired_game_def Bullet_def BULLET_SPEED_def)
  from n late_bullet_before h late_bullet_run o late_bullet_gone u show ?thesis by blast
qed

end
